theory Spec2Isabelle
  imports Main "HOL-Library.Char_ord" "HOL-Library.List_Lexorder" "HOL-Library.Multiset"
begin

section \<open>Data model (types.ts)\<close>

text \<open>
  Timestamps are the strings produced by \<^verbatim>\<open>new Date().toISOString()\<close>; SQLite stores them in
  TEXT columns and compares them bytewise, which is the lexicographic order on \<open>string\<close>.
  Values of type \<^verbatim>\<open>Record<string, any>\<close> are JSON values; \<^verbatim>\<open>JSON.stringify\<close> followed by
  \<^verbatim>\<open>JSON.parse\<close> is the identity on them.
\<close>

type_synonym timestamp = string

datatype json =
  JNull | JBool bool | JNumber int | JString string
  | JArray "json list" | JObject "(string \<times> json) list"

datatype role = Admin | User
datatype report_status = ReportDraft | ReportActive | ReportArchived
datatype submission_status = Draft | Submitted | Approved | Rejected
datatype sync_status = Synced | Pending | SyncError
datatype entity_type = TSubmission | TReport | TUser | TProject
datatype action = Create | Update | Delete
datatype platform = Web | Native

text \<open>A thrown value: an \<^verbatim>\<open>Error\<close> object with its message, or a value that is
  not an instance of \<^verbatim>\<open>Error\<close>.\<close>

datatype error = Error string | Thrown

text \<open>Each entity is a record \<open>new_x\<close> of the fields of \<^verbatim>\<open>Omit<X, "id">\<close>, extended with
  the id.\<close>

record new_user =
  u_email :: string
  u_name :: string
  u_role :: role
  u_createdAt :: timestamp
  u_updatedAt :: timestamp

record user = new_user +
  u_id :: string

record new_project =
  p_name :: string
  p_description :: "string option"
  p_ownerId :: string
  p_settings :: json
  p_createdAt :: timestamp
  p_updatedAt :: timestamp

record project = new_project +
  p_id :: string

record new_report =
  r_projectId :: string
  r_title :: string
  r_description :: "string option"
  r_fields :: json
  r_permissions :: json
  r_status :: report_status
  r_createdAt :: timestamp
  r_updatedAt :: timestamp
  r_createdBy :: string

record report = new_report +
  r_id :: string

record new_submission =
  s_reportId :: string
  s_userId :: string
  s_data :: json
  s_status :: submission_status
  s_submittedAt :: "timestamp option"
  s_lastModified :: timestamp
  s_version :: int
  s_isOffline :: bool
  s_syncStatus :: sync_status

record submission = new_submission +
  s_id :: string

record new_sync_item =
  q_type :: entity_type
  q_action :: action
  q_entityId :: string
  q_data :: json
  q_attempts :: int
  q_lastAttempt :: "timestamp option"
  q_error :: "string option"
  q_createdAt :: timestamp

record sync_item = new_sync_item +
  q_id :: string

text \<open>\<^verbatim>\<open>Partial<Report>\<close> and \<^verbatim>\<open>Partial<ReportSubmission>\<close>: every field may be
  \<^verbatim>\<open>undefined\<close> (\<open>None\<close>).\<close>

record report_patch =
  pr_id :: "string option"
  pr_projectId :: "string option"
  pr_title :: "string option"
  pr_description :: "string option"
  pr_fields :: "json option"
  pr_permissions :: "json option"
  pr_status :: "report_status option"
  pr_createdAt :: "timestamp option"
  pr_updatedAt :: "timestamp option"
  pr_createdBy :: "string option"

record submission_patch =
  ps_id :: "string option"
  ps_reportId :: "string option"
  ps_userId :: "string option"
  ps_data :: "json option"
  ps_status :: "submission_status option"
  ps_submittedAt :: "timestamp option"
  ps_lastModified :: "timestamp option"
  ps_version :: "int option"
  ps_isOffline :: "bool option"
  ps_syncStatus :: "sync_status option"

section \<open>DatabaseService (database.ts)\<close>

text \<open>
  The tables of \<^verbatim>\<open>reports.db\<close>, each a list of rows in insertion order. The tables
  \<^verbatim>\<open>report_versions\<close> and \<^verbatim>\<open>notifications\<close> are created but no method reads or
  fills them, so they are left out. Foreign keys are declared but SQLite does not enforce
  them unless asked to, and the service never asks.
\<close>

record database =
  users :: "user list"
  projects :: "project list"
  reports :: "report list"
  report_submissions :: "submission list"
  sync_queue :: "sync_item list"

text \<open>
  The service: \<open>db_handle\<close> says that \<^verbatim>\<open>this.db\<close> is not null, \<open>reports_db\<close> is the
  content of the database file. \<open>platform_os\<close> and \<open>sqlite_open_error\<close> belong to the
  platform: the latter is the error \<^verbatim>\<open>openDatabaseAsync\<close> rejects with, if it does.
\<close>

record database_service =
  platform_os :: platform
  sqlite_open_error :: "error option"
  db_handle :: bool
  reports_db :: database

definition not_initialized :: error where
  "not_initialized = Error ''Database not initialized''"

definition unique_failed :: "string \<Rightarrow> error" where
  "unique_failed col = Error (''UNIQUE constraint failed: '' @ col)"

text \<open>\<^verbatim>\<open>x || null\<close> and \<^verbatim>\<open>x || ""\<close> on an optional string: the empty string is falsy.\<close>

definition or_null :: "string option \<Rightarrow> string option" where
  "or_null x = (case x of None \<Rightarrow> None | Some v \<Rightarrow> if v = [] then None else Some v)"

definition or_empty :: "string option \<Rightarrow> string" where
  "or_empty x = (case x of None \<Rightarrow> [] | Some v \<Rightarrow> v)"

text \<open>\<^verbatim>\<open>ORDER BY col ASC\<close> and \<^verbatim>\<open>ORDER BY col DESC\<close>. The order of rows with equal keys
  is not fixed by SQL; the model keeps them in table order.\<close>

definition order_asc :: "('a \<Rightarrow> timestamp) \<Rightarrow> 'a list \<Rightarrow> 'a list" where
  "order_asc col rows = sort_key col rows"

definition order_desc :: "('a \<Rightarrow> timestamp) \<Rightarrow> 'a list \<Rightarrow> 'a list" where
  "order_desc col rows = rev (sort_key col rows)"

definition isInitialized :: "database_service \<Rightarrow> bool" where
  "isInitialized s = db_handle s"

text \<open>\<^verbatim>\<open>init\<close>: on the web the handle stays null; elsewhere the file is opened and the
  tables are created if they do not exist, which leaves existing rows as they are (the
  statements that create them are taken to succeed).\<close>

definition init :: "database_service \<Rightarrow> error + database_service" where
  "init s =
     (if platform_os s = Web then Inr (s\<lparr>db_handle := False\<rparr>)
      else case sqlite_open_error s of
             Some e \<Rightarrow> Inl e
           | None \<Rightarrow> Inr (s\<lparr>db_handle := True\<rparr>))"

definition ensureInitialized :: "database_service \<Rightarrow> error + database_service" where
  "ensureInitialized s =
     (if \<not> isInitialized s \<and> platform_os s \<noteq> Web then init s else Inr s)"

subsection \<open>Users\<close>

text \<open>The create methods take the generated id and the current time as arguments; the
  timestamps of the entity passed in are not read.\<close>

definition createUser ::
  "string \<Rightarrow> timestamp \<Rightarrow> new_user \<Rightarrow> database_service \<Rightarrow> error + (string \<times> database_service)" where
  "createUser newId now u s =
     (if \<not> db_handle s then Inl not_initialized
      else if newId \<in> set (map u_id (users (reports_db s))) then Inl (unique_failed ''users.id'')
      else if u_email u \<in> set (map u_email (users (reports_db s)))
        then Inl (unique_failed ''users.email'')
      else Inr (newId, s\<lparr>reports_db := (reports_db s)\<lparr>users := users (reports_db s) @
        [\<lparr>u_email = u_email u, u_name = u_name u, u_role = u_role u,
          u_createdAt = now, u_updatedAt = now, u_id = newId\<rparr>]\<rparr>\<rparr>))"

definition getUserByEmail :: "string \<Rightarrow> database_service \<Rightarrow> error + user option" where
  "getUserByEmail email s =
     (if \<not> db_handle s then Inl not_initialized
      else Inr (find (\<lambda>u. u_email u = email) (users (reports_db s))))"

definition getUserById :: "string \<Rightarrow> database_service \<Rightarrow> error + user option" where
  "getUserById i s =
     (if \<not> db_handle s then Inl not_initialized
      else Inr (find (\<lambda>u. u_id u = i) (users (reports_db s))))"

subsection \<open>Projects\<close>

definition createProject ::
  "string \<Rightarrow> timestamp \<Rightarrow> new_project \<Rightarrow> database_service \<Rightarrow> error + (string \<times> database_service)" where
  "createProject newId now p s =
     (if \<not> db_handle s then Inl not_initialized
      else if newId \<in> set (map p_id (projects (reports_db s)))
        then Inl (unique_failed ''projects.id'')
      else Inr (newId, s\<lparr>reports_db := (reports_db s)\<lparr>projects := projects (reports_db s) @
        [\<lparr>p_name = p_name p, p_description = Some (or_empty (p_description p)),
          p_ownerId = p_ownerId p, p_settings = p_settings p,
          p_createdAt = now, p_updatedAt = now, p_id = newId\<rparr>]\<rparr>\<rparr>))"

definition getProjectsByUserId ::
  "string \<Rightarrow> database_service \<Rightarrow> error + (project list \<times> database_service)" where
  "getProjectsByUserId userId s =
     (case ensureInitialized s of
        Inl e \<Rightarrow> Inl e
      | Inr s' \<Rightarrow>
          if \<not> db_handle s' then Inr ([], s')
          else Inr (order_desc p_createdAt
                 (filter (\<lambda>p. p_ownerId p = userId) (projects (reports_db s'))), s'))"

definition getProjectById ::
  "string \<Rightarrow> database_service \<Rightarrow> error + (project option \<times> database_service)" where
  "getProjectById i s =
     (case ensureInitialized s of
        Inl e \<Rightarrow> Inl e
      | Inr s' \<Rightarrow>
          if \<not> db_handle s' then Inr (None, s')
          else Inr (find (\<lambda>p. p_id p = i) (projects (reports_db s')), s'))"

subsection \<open>Reports\<close>

definition createReport ::
  "string \<Rightarrow> timestamp \<Rightarrow> new_report \<Rightarrow> database_service \<Rightarrow> error + (string \<times> database_service)" where
  "createReport newId now r s =
     (if \<not> db_handle s then Inl not_initialized
      else if newId \<in> set (map r_id (reports (reports_db s)))
        then Inl (unique_failed ''reports.id'')
      else Inr (newId, s\<lparr>reports_db := (reports_db s)\<lparr>reports := reports (reports_db s) @
        [\<lparr>r_projectId = r_projectId r, r_title = r_title r,
          r_description = Some (or_empty (r_description r)), r_fields = r_fields r,
          r_permissions = r_permissions r, r_status = r_status r,
          r_createdAt = now, r_updatedAt = now, r_createdBy = r_createdBy r, r_id = newId\<rparr>]\<rparr>\<rparr>))"

definition getReportsByProjectId :: "string \<Rightarrow> database_service \<Rightarrow> error + report list" where
  "getReportsByProjectId projectId s =
     (if \<not> db_handle s then Inl not_initialized
      else Inr (order_desc r_createdAt
             (filter (\<lambda>r. r_projectId r = projectId) (reports (reports_db s)))))"

definition getAllReports ::
  "database_service \<Rightarrow> error + (report list \<times> database_service)" where
  "getAllReports s =
     (case ensureInitialized s of
        Inl e \<Rightarrow> Inl e
      | Inr s' \<Rightarrow>
          if \<not> db_handle s' then Inr ([], s')
          else Inr (order_desc r_createdAt (reports (reports_db s')), s'))"

definition getReportById ::
  "string \<Rightarrow> database_service \<Rightarrow> error + (report option \<times> database_service)" where
  "getReportById i s =
     (case ensureInitialized s of
        Inl e \<Rightarrow> Inl e
      | Inr s' \<Rightarrow>
          if \<not> db_handle s' then Inr (None, s')
          else Inr (find (\<lambda>r. r_id r = i) (reports (reports_db s')), s'))"

text \<open>The \<^verbatim>\<open>SET\<close> clause of \<^verbatim>\<open>updateReport\<close>: the five columns the method looks at, each
  written only when the patch defines it, and \<^verbatim>\<open>updated_at\<close> always.\<close>

definition report_set :: "report_patch \<Rightarrow> timestamp \<Rightarrow> report \<Rightarrow> report" where
  "report_set patch now r =
     r\<lparr>r_title := (case pr_title patch of None \<Rightarrow> r_title r | Some v \<Rightarrow> v),
       r_description := (case pr_description patch of None \<Rightarrow> r_description r | Some v \<Rightarrow> Some v),
       r_fields := (case pr_fields patch of None \<Rightarrow> r_fields r | Some v \<Rightarrow> v),
       r_permissions := (case pr_permissions patch of None \<Rightarrow> r_permissions r | Some v \<Rightarrow> v),
       r_status := (case pr_status patch of None \<Rightarrow> r_status r | Some v \<Rightarrow> v),
       r_updatedAt := now\<rparr>"

definition updateReport ::
  "timestamp \<Rightarrow> string \<Rightarrow> report_patch \<Rightarrow> database_service \<Rightarrow> error + database_service" where
  "updateReport now i patch s =
     (case ensureInitialized s of
        Inl e \<Rightarrow> Inl e
      | Inr s' \<Rightarrow>
          if \<not> db_handle s' then Inl not_initialized
          else Inr (s'\<lparr>reports_db := (reports_db s')\<lparr>reports :=
                 map (\<lambda>r. if r_id r = i then report_set patch now r else r)
                   (reports (reports_db s'))\<rparr>\<rparr>))"

definition deleteReport :: "string \<Rightarrow> database_service \<Rightarrow> error + database_service" where
  "deleteReport i s =
     (case ensureInitialized s of
        Inl e \<Rightarrow> Inl e
      | Inr s' \<Rightarrow>
          if \<not> db_handle s' then Inl not_initialized
          else Inr (s'\<lparr>reports_db := (reports_db s')\<lparr>
                 report_submissions :=
                   filter (\<lambda>x. s_reportId x \<noteq> i) (report_submissions (reports_db s')),
                 reports := filter (\<lambda>r. r_id r \<noteq> i) (reports (reports_db s'))\<rparr>\<rparr>))"

subsection \<open>Submissions\<close>

definition getSubmissionsByReportId ::
  "string \<Rightarrow> database_service \<Rightarrow> error + submission list" where
  "getSubmissionsByReportId reportId s =
     (if \<not> db_handle s then Inl not_initialized
      else Inr (order_desc s_lastModified
             (filter (\<lambda>x. s_reportId x = reportId) (report_submissions (reports_db s)))))"

definition createSubmission ::
  "string \<Rightarrow> timestamp \<Rightarrow> new_submission \<Rightarrow> database_service
     \<Rightarrow> error + (string \<times> database_service)" where
  "createSubmission newId now x s =
     (if \<not> db_handle s then Inl not_initialized
      else if newId \<in> set (map s_id (report_submissions (reports_db s)))
        then Inl (unique_failed ''report_submissions.id'')
      else Inr (newId, s\<lparr>reports_db := (reports_db s)\<lparr>report_submissions :=
        report_submissions (reports_db s) @
        [\<lparr>s_reportId = s_reportId x, s_userId = s_userId x, s_data = s_data x,
          s_status = s_status x, s_submittedAt = or_null (s_submittedAt x),
          s_lastModified = now, s_version = s_version x, s_isOffline = s_isOffline x,
          s_syncStatus = s_syncStatus x, s_id = newId\<rparr>]\<rparr>\<rparr>))"

text \<open>The \<^verbatim>\<open>SET\<close> clause of \<^verbatim>\<open>updateSubmission\<close>: \<^verbatim>\<open>data\<close>, \<^verbatim>\<open>status\<close>,
  \<^verbatim>\<open>submitted_at\<close> and \<^verbatim>\<open>sync_status\<close> when the patch defines them, and
  \<^verbatim>\<open>last_modified\<close> always. No other field of the patch is read.\<close>

definition submission_set :: "submission_patch \<Rightarrow> timestamp \<Rightarrow> submission \<Rightarrow> submission" where
  "submission_set patch now x =
     x\<lparr>s_data := (case ps_data patch of None \<Rightarrow> s_data x | Some v \<Rightarrow> v),
       s_status := (case ps_status patch of None \<Rightarrow> s_status x | Some v \<Rightarrow> v),
       s_submittedAt := (case ps_submittedAt patch of None \<Rightarrow> s_submittedAt x | Some v \<Rightarrow> Some v),
       s_syncStatus := (case ps_syncStatus patch of None \<Rightarrow> s_syncStatus x | Some v \<Rightarrow> v),
       s_lastModified := now\<rparr>"

definition updateSubmission ::
  "timestamp \<Rightarrow> string \<Rightarrow> submission_patch \<Rightarrow> database_service \<Rightarrow> error + database_service" where
  "updateSubmission now i patch s =
     (if \<not> db_handle s then Inl not_initialized
      else Inr (s\<lparr>reports_db := (reports_db s)\<lparr>report_submissions :=
             map (\<lambda>x. if s_id x = i then submission_set patch now x else x)
               (report_submissions (reports_db s))\<rparr>\<rparr>))"

definition getSubmissionsByUserId ::
  "string \<Rightarrow> database_service \<Rightarrow> error + (submission list \<times> database_service)" where
  "getSubmissionsByUserId userId s =
     (case ensureInitialized s of
        Inl e \<Rightarrow> Inl e
      | Inr s' \<Rightarrow>
          if \<not> db_handle s' then Inr ([], s')
          else Inr (order_desc s_lastModified
                 (filter (\<lambda>x. s_userId x = userId) (report_submissions (reports_db s'))), s'))"

subsection \<open>Sync queue\<close>

definition getPendingSyncItems :: "database_service \<Rightarrow> error + sync_item list" where
  "getPendingSyncItems s =
     (if \<not> db_handle s then Inl not_initialized
      else Inr (order_asc q_createdAt
             (filter (\<lambda>q. q_attempts q < 3) (sync_queue (reports_db s)))))"

definition addToSyncQueue ::
  "string \<Rightarrow> timestamp \<Rightarrow> new_sync_item \<Rightarrow> database_service \<Rightarrow> error + (string \<times> database_service)" where
  "addToSyncQueue newId now item s =
     (if \<not> db_handle s then Inl not_initialized
      else if newId \<in> set (map q_id (sync_queue (reports_db s)))
        then Inl (unique_failed ''sync_queue.id'')
      else Inr (newId, s\<lparr>reports_db := (reports_db s)\<lparr>sync_queue := sync_queue (reports_db s) @
        [\<lparr>q_type = q_type item, q_action = q_action item,
          q_entityId = q_entityId item, q_data = q_data item, q_attempts = q_attempts item,
          q_lastAttempt = or_null (q_lastAttempt item), q_error = or_null (q_error item),
          q_createdAt = now, q_id = newId\<rparr>]\<rparr>\<rparr>))"

definition updateSyncQueueItem ::
  "timestamp \<Rightarrow> string \<Rightarrow> int \<Rightarrow> string option \<Rightarrow> database_service \<Rightarrow> error + database_service" where
  "updateSyncQueueItem now i attempts err s =
     (if \<not> db_handle s then Inl not_initialized
      else Inr (s\<lparr>reports_db := (reports_db s)\<lparr>sync_queue :=
             map (\<lambda>q. if q_id q = i
                       then q\<lparr>q_attempts := attempts, q_lastAttempt := Some now,
                              q_error := or_null err\<rparr>
                       else q)
               (sync_queue (reports_db s))\<rparr>\<rparr>))"

definition removeSyncQueueItem :: "string \<Rightarrow> database_service \<Rightarrow> error + database_service" where
  "removeSyncQueueItem i s =
     (if \<not> db_handle s then Inl not_initialized
      else Inr (s\<lparr>reports_db := (reports_db s)\<lparr>sync_queue :=
             filter (\<lambda>q. q_id q \<noteq> i) (sync_queue (reports_db s))\<rparr>\<rparr>))"

definition clearAllData :: "database_service \<Rightarrow> error + database_service" where
  "clearAllData s =
     (if \<not> db_handle s then Inl not_initialized
      else Inr (s\<lparr>reports_db := \<lparr>users = [], projects = [], reports = [],
             report_submissions = [], sync_queue = []\<rparr>\<rparr>))"

section \<open>SyncService (syncService.ts)\<close>

text \<open>
  What an operation takes from outside: \<open>generateId n\<close> is the n-th id that
  \<^verbatim>\<open>generateId()\<close> returns during the operation, \<open>date n\<close> the n-th reading of
  \<^verbatim>\<open>new Date().toISOString()\<close> and \<open>date_now n\<close> of \<^verbatim>\<open>Date.now()\<close> (in digits).
  In a sync pass, \<open>queue_random n\<close> says that \<^verbatim>\<open>Math.random() > 0.1\<close> held in the request
  for the n-th item of \<^verbatim>\<open>processSyncQueue\<close> and \<open>queue_date n\<close> is the clock when that
  item's failure is recorded; \<open>submission_random\<close> and \<open>submission_date\<close> are the same for the
  n-th submission of \<^verbatim>\<open>syncPendingSubmissions\<close>.
\<close>

record env =
  generateId :: "nat \<Rightarrow> string"
  date :: "nat \<Rightarrow> timestamp"
  date_now :: "nat \<Rightarrow> string"
  queue_random :: "nat \<Rightarrow> bool"
  queue_date :: "nat \<Rightarrow> timestamp"
  submission_random :: "nat \<Rightarrow> bool"
  submission_date :: "nat \<Rightarrow> timestamp"

record sync_service =
  isOnline :: bool
  syncInProgress :: bool
  syncInterval :: bool

text \<open>\<open>syncInterval\<close> says that a timer is set. The two services are module-level
  singletons; \<open>app\<close> holds both.\<close>

record app =
  databaseService :: database_service
  syncService :: sync_service

definition stopSync :: "sync_service \<Rightarrow> sync_service" where
  "stopSync y = (if syncInterval y then y\<lparr>syncInterval := False\<rparr> else y)"

definition scheduleSyncInterval :: "sync_service \<Rightarrow> sync_service" where
  "scheduleSyncInterval y = (stopSync y)\<lparr>syncInterval := True\<rparr>"

definition baseUrl :: string where
  "baseUrl = ''https://api.reportsapp.com''"

text \<open>The \<^verbatim>\<open>default\<close> branches of the two switches throw on a type or an action outside
  the enumerations; the datatypes have no such value.\<close>

definition getEndpointForItem :: "sync_item \<Rightarrow> string" where
  "getEndpointForItem item =
     (case q_type item of
        TSubmission \<Rightarrow> baseUrl @ ''/submissions/'' @ q_entityId item
      | TReport \<Rightarrow> baseUrl @ ''/reports/'' @ q_entityId item
      | TUser \<Rightarrow> baseUrl @ ''/users/'' @ q_entityId item
      | TProject \<Rightarrow> baseUrl @ ''/projects/'' @ q_entityId item)"

definition getMethodForAction :: "action \<Rightarrow> string" where
  "getMethodForAction a = (case a of Create \<Rightarrow> ''POST'' | Update \<Rightarrow> ''PUT'' | Delete \<Rightarrow> ''DELETE'')"

text \<open>\<^verbatim>\<open>makeHttpRequest\<close> simulates the request: it resolves when \<^verbatim>\<open>Math.random() > 0.1\<close>
  (the first argument) and rejects with \<^verbatim>\<open>new Error('Network error')\<close> otherwise. \<open>None\<close> is
  a resolved promise.\<close>

definition makeHttpRequest :: "bool \<Rightarrow> string \<Rightarrow> string \<Rightarrow> json \<Rightarrow> error option" where
  "makeHttpRequest random_gt url method body =
     (if random_gt then None else Some (Error ''Network error''))"

definition syncItem :: "bool \<Rightarrow> sync_item \<Rightarrow> error option" where
  "syncItem random_gt item =
     makeHttpRequest random_gt (getEndpointForItem item) (getMethodForAction (q_action item))
       (q_data item)"

text \<open>\<^verbatim>\<open>error instanceof Error ? error.message : 'Unknown error'\<close>\<close>

definition error_message :: "error \<Rightarrow> string" where
  "error_message e = (case e of Error m \<Rightarrow> m | Thrown \<Rightarrow> ''Unknown error'')"

text \<open>The loop of \<^verbatim>\<open>processSyncQueue\<close> from its n-th item on. The \<^verbatim>\<open>try\<close> block is the
  request followed by the removal; an error of either goes to the \<^verbatim>\<open>catch\<close> block, and an
  error of the \<^verbatim>\<open>catch\<close> block leaves the loop. The result is the error the method throws,
  if any, and the database as the method leaves it.\<close>

fun processItems ::
  "env \<Rightarrow> nat \<Rightarrow> sync_item list \<Rightarrow> database_service \<Rightarrow> error option \<times> database_service" where
  "processItems ev n [] s = (None, s)"
| "processItems ev n (item # items) s =
     (case (case syncItem (queue_random ev n) item of
              Some e \<Rightarrow> Inl e
            | None \<Rightarrow> removeSyncQueueItem (q_id item) s) of
        Inr s' \<Rightarrow> processItems ev (Suc n) items s'
      | Inl e \<Rightarrow>
          (case updateSyncQueueItem (queue_date ev n) (q_id item) (q_attempts item + 1)
                  (Some (error_message e)) s of
             Inl e' \<Rightarrow> (Some e', s)
           | Inr s' \<Rightarrow> processItems ev (Suc n) items s'))"

definition processSyncQueue :: "env \<Rightarrow> database_service \<Rightarrow> error option \<times> database_service" where
  "processSyncQueue ev s =
     (case getPendingSyncItems s of
        Inl e \<Rightarrow> (Some e, s)
      | Inr pendingItems \<Rightarrow> processItems ev 0 pendingItems s)"

definition status_string :: "submission_status \<Rightarrow> string" where
  "status_string st =
     (case st of Draft \<Rightarrow> ''draft'' | Submitted \<Rightarrow> ''submitted''
               | Approved \<Rightarrow> ''approved'' | Rejected \<Rightarrow> ''rejected'')"

definition syncSubmission :: "bool \<Rightarrow> submission \<Rightarrow> error option" where
  "syncSubmission random_gt x =
     makeHttpRequest random_gt (''https://api.reportsapp.com/submissions/'' @ s_id x)
       (if s_isOffline x then ''POST'' else ''PUT'')
       (JObject [(''reportId'', JString (s_reportId x)), (''userId'', JString (s_userId x)),
          (''data'', s_data x), (''status'', JString (status_string (s_status x))),
          (''submittedAt'', (case s_submittedAt x of None \<Rightarrow> JNull | Some d \<Rightarrow> JString d)),
          (''version'', JNumber (s_version x))])"

definition only_syncStatus :: "sync_status \<Rightarrow> submission_patch" where
  "only_syncStatus v =
     \<lparr>ps_id = None, ps_reportId = None, ps_userId = None, ps_data = None, ps_status = None,
      ps_submittedAt = None, ps_lastModified = None, ps_version = None, ps_isOffline = None,
      ps_syncStatus = Some v\<rparr>"

text \<open>The loop of \<^verbatim>\<open>syncPendingSubmissions\<close> from its n-th submission on.\<close>

fun syncSubmissions ::
  "env \<Rightarrow> nat \<Rightarrow> submission list \<Rightarrow> database_service \<Rightarrow> error option \<times> database_service" where
  "syncSubmissions ev n [] s = (None, s)"
| "syncSubmissions ev n (x # xs) s =
     (case (case syncSubmission (submission_random ev n) x of
              Some e \<Rightarrow> Inl e
            | None \<Rightarrow> updateSubmission (submission_date ev n) (s_id x) (only_syncStatus Synced) s) of
        Inr s' \<Rightarrow> syncSubmissions ev (Suc n) xs s'
      | Inl e \<Rightarrow>
          (case updateSubmission (submission_date ev n) (s_id x) (only_syncStatus SyncError) s of
             Inl e' \<Rightarrow> (Some e', s)
           | Inr s' \<Rightarrow> syncSubmissions ev (Suc n) xs s'))"

definition syncPendingSubmissions ::
  "env \<Rightarrow> database_service \<Rightarrow> error option \<times> database_service" where
  "syncPendingSubmissions ev s =
     (case getSubmissionsByUserId ''current_user_id'' s of
        Inl e \<Rightarrow> (Some e, s)
      | Inr (submissions, s') \<Rightarrow>
          syncSubmissions ev 0 (filter (\<lambda>x. s_syncStatus x = Pending) submissions) s')"

text \<open>
  \<^verbatim>\<open>startSync\<close> in two parts. \<open>startSync_begin\<close> is what runs before the first
  \<^verbatim>\<open>await\<close>: the guard, the flag, the test of the database; it tells whether the pass goes
  on. \<open>startSync_pass\<close> is the rest: the two loops, the timer, the \<^verbatim>\<open>catch\<close> that logs any
  error and the \<^verbatim>\<open>finally\<close> that lowers the flag. The first component of the result is the
  error the promise rejects with.
\<close>

definition startSync_begin :: "app \<Rightarrow> bool \<times> app" where
  "startSync_begin a =
     (if \<not> isOnline (syncService a) \<or> syncInProgress (syncService a) then (False, a)
      else if \<not> isInitialized (databaseService a)
        then (False, a\<lparr>syncService := (syncService a)\<lparr>syncInProgress := False\<rparr>\<rparr>)
      else (True, a\<lparr>syncService := (syncService a)\<lparr>syncInProgress := True\<rparr>\<rparr>))"

definition startSync_pass :: "env \<Rightarrow> app \<Rightarrow> error option \<times> app" where
  "startSync_pass ev a =
     (case processSyncQueue ev (databaseService a) of
        (Some e, s1) \<Rightarrow>
          (None, \<lparr>databaseService = s1, syncService = (syncService a)\<lparr>syncInProgress := False\<rparr>\<rparr>)
      | (None, s1) \<Rightarrow>
          (case syncPendingSubmissions ev s1 of
             (Some e, s2) \<Rightarrow>
               (None, \<lparr>databaseService = s2,
                       syncService = (syncService a)\<lparr>syncInProgress := False\<rparr>\<rparr>)
           | (None, s2) \<Rightarrow>
               (None, \<lparr>databaseService = s2,
                       syncService =
                         (scheduleSyncInterval (syncService a))\<lparr>syncInProgress := False\<rparr>\<rparr>)))"

definition startSync :: "env \<Rightarrow> app \<Rightarrow> error option \<times> app" where
  "startSync ev a =
     (case startSync_begin a of
        (False, a') \<Rightarrow> (None, a')
      | (True, a') \<Rightarrow> startSync_pass ev a')"

text \<open>A call \<^verbatim>\<open>this.startSync()\<close> that is not awaited runs \<open>startSync_begin\<close> and returns;
  the pass it started is in flight as long as \<open>syncInProgress\<close> is set, and
  \<open>startSync_pass\<close> is the whole of it when nothing else runs before it ends.\<close>

definition startSync_unawaited :: "app \<Rightarrow> app" where
  "startSync_unawaited a = snd (startSync_begin a)"

text \<open>The listener registered with \<^verbatim>\<open>NetInfo\<close>; the argument is \<^verbatim>\<open>state.isConnected\<close>,
  which may be null.\<close>

definition networkListener :: "bool option \<Rightarrow> app \<Rightarrow> app" where
  "networkListener connected a =
     (let wasOffline = \<not> isOnline (syncService a);
          a1 = a\<lparr>syncService := (syncService a)\<lparr>isOnline :=
                 (case connected of None \<Rightarrow> False | Some b \<Rightarrow> b)\<rparr>\<rparr>;
          a2 = (if wasOffline \<and> isOnline (syncService a1) then startSync_unawaited a1 else a1)
      in if \<not> isOnline (syncService a2)
         then a2\<lparr>syncService := stopSync (syncService a2)\<rparr> else a2)"

text \<open>The callback of the timer set by \<^verbatim>\<open>scheduleSyncInterval\<close>.\<close>

definition intervalCallback :: "app \<Rightarrow> app" where
  "intervalCallback a =
     (if isOnline (syncService a) \<and> \<not> syncInProgress (syncService a)
      then startSync_unawaited a else a)"

text \<open>\<^verbatim>\<open>addToSyncQueue\<close> of the sync service. Besides the arguments of the method it
  takes the generated id, the \<^verbatim>\<open>createdAt\<close> it passes on and the clock of the insertion.
  The call of \<^verbatim>\<open>startSync\<close> at its end is not awaited.\<close>

definition addToSyncQueue_sync ::
  "string \<Rightarrow> timestamp \<Rightarrow> timestamp \<Rightarrow> entity_type \<Rightarrow> action \<Rightarrow> string \<Rightarrow> json \<Rightarrow> app
     \<Rightarrow> error option \<times> app" where
  "addToSyncQueue_sync newId createdAt now ty act entityId body a =
     (case addToSyncQueue newId now
             \<lparr>q_type = ty, q_action = act, q_entityId = entityId, q_data = body, q_attempts = 0,
              q_lastAttempt = None, q_error = None, q_createdAt = createdAt\<rparr>
             (databaseService a) of
        Inl e \<Rightarrow> (Some e, a)
      | Inr (_, s') \<Rightarrow>
          (let a' = a\<lparr>databaseService := s'\<rparr>
           in if isOnline (syncService a') \<and> \<not> syncInProgress (syncService a')
              then (None, startSync_unawaited a') else (None, a')))"

text \<open>The \<^verbatim>\<open>status\<close> parameter of the two offline methods is \<^verbatim>\<open>'draft' | 'submitted'\<close>.\<close>

datatype fill_status = FillDraft | FillSubmitted

definition fill :: "fill_status \<Rightarrow> submission_status" where
  "fill st = (case st of FillDraft \<Rightarrow> Draft | FillSubmitted \<Rightarrow> Submitted)"

text \<open>
  \<^verbatim>\<open>saveSubmissionOffline\<close>. The clock is read for \<^verbatim>\<open>submittedAt\<close> (\<open>date 0\<close>), for
  \<^verbatim>\<open>lastModified\<close> (\<open>date 1\<close>), inside \<^verbatim>\<open>createSubmission\<close> (\<open>date 2\<close>), for the
  \<^verbatim>\<open>submittedAt\<close> of the queue entry's payload (\<open>date 3\<close>), for the entry's \<^verbatim>\<open>createdAt\<close>
  (\<open>date 4\<close>) and inside the insertion of the entry (\<open>date 5\<close>). A field that is
  \<^verbatim>\<open>undefined\<close> is absent from the payload.
\<close>

definition saveSubmissionOffline ::
  "env \<Rightarrow> string \<Rightarrow> string \<Rightarrow> json \<Rightarrow> fill_status \<Rightarrow> app \<Rightarrow> (error + string) \<times> app" where
  "saveSubmissionOffline ev reportId userId body st a =
     (case createSubmission (generateId ev 0) (date ev 2)
             \<lparr>s_reportId = reportId, s_userId = userId, s_data = body, s_status = fill st,
              s_submittedAt = (if st = FillSubmitted then Some (date ev 0) else None),
              s_lastModified = date ev 1, s_version = 1, s_isOffline = True,
              s_syncStatus = Pending\<rparr>
             (databaseService a) of
        Inl e \<Rightarrow> (Inl e, a)
      | Inr (submissionId, s') \<Rightarrow>
          (case addToSyncQueue_sync (generateId ev 1) (date ev 4) (date ev 5) TSubmission Create submissionId
                  (JObject ([(''reportId'', JString reportId), (''userId'', JString userId),
                     (''data'', body), (''status'', JString (status_string (fill st)))]
                     @ (if st = FillSubmitted then [(''submittedAt'', JString (date ev 3))] else [])))
                  (a\<lparr>databaseService := s'\<rparr>) of
             (Some e, a') \<Rightarrow> (Inl e, a')
           | (None, a') \<Rightarrow> (Inr submissionId, a')))"

text \<open>\<^verbatim>\<open>updateSubmissionOffline\<close>: the clock is read for \<^verbatim>\<open>submittedAt\<close> (\<open>date 0\<close>), inside
  \<^verbatim>\<open>updateSubmission\<close> (\<open>date 1\<close>), for the entry's \<^verbatim>\<open>createdAt\<close> (\<open>date 2\<close>) and inside the
  insertion of the entry (\<open>date 3\<close>).\<close>

definition updateSubmissionOffline ::
  "env \<Rightarrow> string \<Rightarrow> json \<Rightarrow> fill_status option \<Rightarrow> app \<Rightarrow> error option \<times> app" where
  "updateSubmissionOffline ev submissionId body st a =
     (case updateSubmission (date ev 1) submissionId
             \<lparr>ps_id = None, ps_reportId = None, ps_userId = None, ps_data = Some body,
              ps_status = map_option fill st,
              ps_submittedAt = (if st = Some FillSubmitted then Some (date ev 0) else None),
              ps_lastModified = None, ps_version = None, ps_isOffline = None,
              ps_syncStatus = Some Pending\<rparr>
             (databaseService a) of
        Inl e \<Rightarrow> (Some e, a)
      | Inr s' \<Rightarrow>
          addToSyncQueue_sync (generateId ev 0) (date ev 2) (date ev 3) TSubmission Update submissionId
            (JObject ([(''data'', body)]
               @ (case st of None \<Rightarrow> [] | Some v \<Rightarrow> [(''status'', JString (status_string (fill v)))])))
            (a\<lparr>databaseService := s'\<rparr>))"

text \<open>
  The two offline methods up to their second \<^verbatim>\<open>await\<close>: the write of the submission has
  come back and the insertion of the queue entry has not been asked for yet. What follows
  is \<^verbatim>\<open>addToSyncQueue\<close>.
\<close>

definition saveSubmissionOffline_begin ::
  "env \<Rightarrow> string \<Rightarrow> string \<Rightarrow> json \<Rightarrow> fill_status \<Rightarrow> app \<Rightarrow> (error + string) \<times> app" where
  "saveSubmissionOffline_begin ev reportId userId body st a =
     (case createSubmission (generateId ev 0) (date ev 2)
             \<lparr>s_reportId = reportId, s_userId = userId, s_data = body, s_status = fill st,
              s_submittedAt = (if st = FillSubmitted then Some (date ev 0) else None),
              s_lastModified = date ev 1, s_version = 1, s_isOffline = True,
              s_syncStatus = Pending\<rparr>
             (databaseService a) of
        Inl e \<Rightarrow> (Inl e, a)
      | Inr (submissionId, s') \<Rightarrow> (Inr submissionId, a\<lparr>databaseService := s'\<rparr>))"

definition updateSubmissionOffline_begin ::
  "env \<Rightarrow> string \<Rightarrow> json \<Rightarrow> fill_status option \<Rightarrow> app \<Rightarrow> error option \<times> app" where
  "updateSubmissionOffline_begin ev submissionId body st a =
     (case updateSubmission (date ev 1) submissionId
             \<lparr>ps_id = None, ps_reportId = None, ps_userId = None, ps_data = Some body,
              ps_status = map_option fill st,
              ps_submittedAt = (if st = Some FillSubmitted then Some (date ev 0) else None),
              ps_lastModified = None, ps_version = None, ps_isOffline = None,
              ps_syncStatus = Some Pending\<rparr>
             (databaseService a) of
        Inl e \<Rightarrow> (Some e, a)
      | Inr s' \<Rightarrow> (None, a\<lparr>databaseService := s'\<rparr>))"

definition isConnected :: "app \<Rightarrow> bool" where
  "isConnected a = isOnline (syncService a)"

definition forcSync :: "env \<Rightarrow> app \<Rightarrow> error option \<times> app" where
  "forcSync ev a =
     (if \<not> isOnline (syncService a) then (Some (Error ''Cannot sync while offline''), a)
      else startSync ev a)"

text \<open>\<^verbatim>\<open>getSyncStats\<close>: the numbers of pending and of failed items
  (\<^verbatim>\<open>lastSyncTime\<close> is always null).\<close>

definition getSyncStats :: "app \<Rightarrow> error + (nat \<times> nat)" where
  "getSyncStats a =
     (case getPendingSyncItems (databaseService a) of
        Inl e \<Rightarrow> Inl e
      | Inr pendingItems \<Rightarrow>
          Inr (length pendingItems, length (filter (\<lambda>item. q_attempts item \<ge> 3) pendingItems)))"

text \<open>The loop of \<^verbatim>\<open>clearFailedSyncItems\<close>.\<close>

fun removeItems :: "sync_item list \<Rightarrow> database_service \<Rightarrow> error option \<times> database_service" where
  "removeItems [] s = (None, s)"
| "removeItems (item # items) s =
     (case removeSyncQueueItem (q_id item) s of
        Inl e \<Rightarrow> (Some e, s)
      | Inr s' \<Rightarrow> removeItems items s')"

definition clearFailedSyncItems :: "app \<Rightarrow> error option \<times> app" where
  "clearFailedSyncItems a =
     (case getPendingSyncItems (databaseService a) of
        Inl e \<Rightarrow> (Some e, a)
      | Inr pendingItems \<Rightarrow>
          (case removeItems (filter (\<lambda>item. q_attempts item \<ge> 3) pendingItems)
                  (databaseService a) of
             (r, s') \<Rightarrow> (r, a\<lparr>databaseService := s'\<rparr>)))"

section \<open>AuthContext (AuthContext.tsx)\<close>

record auth_state =
  isAuthenticated :: bool
  auth_user :: "user option"
  token :: "string option"
  refreshToken :: "string option"

record login_credentials =
  c_email :: string
  c_password :: string

record register_data =
  d_email :: string
  d_password :: string
  d_name :: string

datatype auth_action =
  SET_LOADING bool | LOGIN_SUCCESS user string string | LOGOUT | UPDATE_USER user

definition initialState :: auth_state where
  "initialState = \<lparr>isAuthenticated = False, auth_user = None, token = None, refreshToken = None\<rparr>"

fun authReducer :: "auth_state \<Rightarrow> auth_action \<Rightarrow> auth_state" where
  "authReducer st (LOGIN_SUCCESS u tok rtok) =
     st\<lparr>isAuthenticated := True, auth_user := Some u, token := Some tok, refreshToken := Some rtok\<rparr>"
| "authReducer st LOGOUT = initialState"
| "authReducer st (UPDATE_USER u) = st\<lparr>auth_user := Some u\<rparr>"
| "authReducer st (SET_LOADING b) = st"

text \<open>The three items the provider keeps in \<^verbatim>\<open>SecureStore\<close>; \<^verbatim>\<open>user_data\<close> holds the user
  as JSON. Writing and deleting an item is taken to succeed.\<close>

record secure_store =
  auth_token :: "string option"
  refresh_token :: "string option"
  user_data :: "user option"

record auth_context =
  state :: auth_state
  isLoading :: bool
  secureStore :: secure_store

text \<open>\<^verbatim>\<open>email.split('@')[0]\<close>: the text before the first \<^verbatim>\<open>@\<close>, the whole string if there
  is none.\<close>

definition local_part :: "string \<Rightarrow> string" where
  "local_part email = takeWhile (\<lambda>c. c \<noteq> CHR ''@'') email"

definition a_acute :: string where
  "a_acute = [CHR 0xC3, CHR 0xA1]"

definition login_failed :: error where
  "login_failed = Error (''Falha ao criar/encontrar usu'' @ a_acute @ ''rio'')"

definition already_exists :: error where
  "already_exists = Error (''Usu'' @ a_acute @ ''rio j'' @ a_acute @ '' existe com este email'')"

definition register_failed :: error where
  "register_failed = Error (''Falha ao criar usu'' @ a_acute @ ''rio'')"

text \<open>The end of both \<^verbatim>\<open>login\<close> and \<^verbatim>\<open>register\<close> once the user is at hand: the tokens are
  made from \<^verbatim>\<open>Date.now()\<close>, the three items are stored and \<^verbatim>\<open>LOGIN_SUCCESS\<close> is
  dispatched.\<close>

definition authenticate :: "env \<Rightarrow> user \<Rightarrow> auth_context \<Rightarrow> auth_context" where
  "authenticate ev u c =
     (let tok = ''token_'' @ date_now ev 0; rtok = ''refresh_'' @ date_now ev 1
      in c\<lparr>secureStore := \<lparr>auth_token = Some tok, refresh_token = Some rtok, user_data = Some u\<rparr>,
            state := authReducer (state c) (LOGIN_SUCCESS u tok rtok)\<rparr>)"

text \<open>
  \<^verbatim>\<open>login\<close>. The result is the error rethrown to the caller, if any; \<^verbatim>\<open>finally\<close> lowers
  \<^verbatim>\<open>isLoading\<close> on every path. The password of the credentials is never read.
\<close>

definition login ::
  "env \<Rightarrow> login_credentials \<Rightarrow> auth_context \<times> database_service
     \<Rightarrow> error option \<times> auth_context \<times> database_service" where
  "login ev credentials cs =
     (let c = (fst cs)\<lparr>isLoading := True\<rparr>; s = snd cs in
      case getUserByEmail (c_email credentials) s of
        Inl e \<Rightarrow> (Some e, c\<lparr>isLoading := False\<rparr>, s)
      | Inr (Some u) \<Rightarrow> (None, (authenticate ev u c)\<lparr>isLoading := False\<rparr>, s)
      | Inr None \<Rightarrow>
          (case createUser (generateId ev 0) (date ev 2)
                  \<lparr>u_email = c_email credentials, u_name = local_part (c_email credentials),
                   u_role = Admin, u_createdAt = date ev 0, u_updatedAt = date ev 1\<rparr> s of
             Inl e \<Rightarrow> (Some e, c\<lparr>isLoading := False\<rparr>, s)
           | Inr (userId, s') \<Rightarrow>
               (case getUserById userId s' of
                  Inl e \<Rightarrow> (Some e, c\<lparr>isLoading := False\<rparr>, s')
                | Inr None \<Rightarrow> (Some login_failed, c\<lparr>isLoading := False\<rparr>, s')
                | Inr (Some u) \<Rightarrow> (None, (authenticate ev u c)\<lparr>isLoading := False\<rparr>, s'))))"

definition register ::
  "env \<Rightarrow> register_data \<Rightarrow> auth_context \<times> database_service
     \<Rightarrow> error option \<times> auth_context \<times> database_service" where
  "register ev d cs =
     (let c = (fst cs)\<lparr>isLoading := True\<rparr>; s = snd cs in
      case getUserByEmail (d_email d) s of
        Inl e \<Rightarrow> (Some e, c\<lparr>isLoading := False\<rparr>, s)
      | Inr (Some existingUser) \<Rightarrow> (Some already_exists, c\<lparr>isLoading := False\<rparr>, s)
      | Inr None \<Rightarrow>
          (case createUser (generateId ev 0) (date ev 2)
                  \<lparr>u_email = d_email d, u_name = d_name d, u_role = User,
                   u_createdAt = date ev 0, u_updatedAt = date ev 1\<rparr> s of
             Inl e \<Rightarrow> (Some e, c\<lparr>isLoading := False\<rparr>, s)
           | Inr (userId, s') \<Rightarrow>
               (case getUserById userId s' of
                  Inl e \<Rightarrow> (Some e, c\<lparr>isLoading := False\<rparr>, s')
                | Inr None \<Rightarrow> (Some register_failed, c\<lparr>isLoading := False\<rparr>, s')
                | Inr (Some u) \<Rightarrow> (None, (authenticate ev u c)\<lparr>isLoading := False\<rparr>, s'))))"

definition logout :: "auth_context \<Rightarrow> auth_context" where
  "logout c =
     c\<lparr>secureStore := \<lparr>auth_token = None, refresh_token = None, user_data = None\<rparr>,
       state := authReducer (state c) LOGOUT\<rparr>"

section \<open>The operations of the application\<close>

text \<open>
  The entry points through which the screens, the platform's events and the timer act on
  the two services and the provider. The methods of the database service that only the
  sync service calls (\<^verbatim>\<open>createSubmission\<close>, \<^verbatim>\<open>updateSubmission\<close> and the methods of the
  queue) act through it; the queries that neither open the database nor write are left
  out. A sync pass is not one operation: it awaits every request and every statement of
  the database, and other operations run in between. \<open>PassStep\<close> is the next step of the
  pass in flight. The two offline methods write twice, and other operations run between
  their writes too: they are there whole, and in their parts, which are the write of the
  submission (\<open>SaveSubmissionOffline_begin\<close>, \<open>UpdateSubmissionOffline_begin\<close>), the
  insertion of the queue entry (\<open>AddToSyncQueue\<close>, with the generated id and the clock) and
  the call of \<^verbatim>\<open>startSync\<close>, which does what the call of \<^verbatim>\<open>forcSync\<close> does.
\<close>

datatype operation =
    Init
  | Login login_credentials
  | Register register_data
  | Logout
  | CreateProject new_project
  | CreateReport new_report
  | UpdateReport string report_patch
  | DeleteReport string
  | GetProjectsByUserId string
  | GetProjectById string
  | GetAllReports
  | GetReportById string
  | GetSubmissionsByUserId string
  | SaveSubmissionOffline string string json fill_status
  | UpdateSubmissionOffline string json "fill_status option"
  | SaveSubmissionOffline_begin string string json fill_status
  | UpdateSubmissionOffline_begin string json "fill_status option"
  | AddToSyncQueue string timestamp new_sync_item
  | ForcSync
  | NetworkEvent "bool option"
  | IntervalCallback
  | PassStep
  | ClearFailedSyncItems
  | ClearAllData

text \<open>The database after a method of the database service: as before when the method
  throws.\<close>

definition after :: "database_service \<Rightarrow> error + database_service \<Rightarrow> database_service" where
  "after s r = (case r of Inl e \<Rightarrow> s | Inr s' \<Rightarrow> s')"

definition after_result ::
  "database_service \<Rightarrow> error + ('a \<times> database_service) \<Rightarrow> database_service" where
  "after_result s r = (case r of Inl e \<Rightarrow> s | Inr (v, s') \<Rightarrow> s')"

definition on_database ::
  "(database_service \<Rightarrow> database_service) \<Rightarrow> app \<times> auth_context \<Rightarrow> app \<times> auth_context" where
  "on_database f ac = ((fst ac)\<lparr>databaseService := f (databaseService (fst ac))\<rparr>, snd ac)"

text \<open>
  What the call of an operation does to the services and the provider by the time control
  is back in the event loop. \<^verbatim>\<open>forcSync\<close> awaits \<^verbatim>\<open>startSync\<close>, so its caller waits for
  the pass, but what the call does itself is the beginning of \<^verbatim>\<open>startSync\<close>, as for a call
  that is not awaited; the rest of the pass is made of its steps. A step of the pass is not
  a call.
\<close>

fun perform :: "env \<Rightarrow> operation \<Rightarrow> app \<times> auth_context \<Rightarrow> app \<times> auth_context" where
  "perform ev Init ac = on_database (\<lambda>s. after s (init s)) ac"
| "perform ev (Login credentials) ac =
     (case login ev credentials (snd ac, databaseService (fst ac)) of
        (r, c', s') \<Rightarrow> ((fst ac)\<lparr>databaseService := s'\<rparr>, c'))"
| "perform ev (Register d) ac =
     (case register ev d (snd ac, databaseService (fst ac)) of
        (r, c', s') \<Rightarrow> ((fst ac)\<lparr>databaseService := s'\<rparr>, c'))"
| "perform ev Logout ac = (fst ac, logout (snd ac))"
| "perform ev (CreateProject p) ac =
     on_database (\<lambda>s. after_result s (createProject (generateId ev 0) (date ev 0) p s)) ac"
| "perform ev (CreateReport r) ac =
     on_database (\<lambda>s. after_result s (createReport (generateId ev 0) (date ev 0) r s)) ac"
| "perform ev (UpdateReport i patch) ac =
     on_database (\<lambda>s. after s (updateReport (date ev 0) i patch s)) ac"
| "perform ev (DeleteReport i) ac = on_database (\<lambda>s. after s (deleteReport i s)) ac"
| "perform ev (GetProjectsByUserId i) ac =
     on_database (\<lambda>s. after_result s (getProjectsByUserId i s)) ac"
| "perform ev (GetProjectById i) ac = on_database (\<lambda>s. after_result s (getProjectById i s)) ac"
| "perform ev GetAllReports ac = on_database (\<lambda>s. after_result s (getAllReports s)) ac"
| "perform ev (GetReportById i) ac = on_database (\<lambda>s. after_result s (getReportById i s)) ac"
| "perform ev (GetSubmissionsByUserId i) ac =
     on_database (\<lambda>s. after_result s (getSubmissionsByUserId i s)) ac"
| "perform ev (SaveSubmissionOffline reportId userId body st) ac =
     (snd (saveSubmissionOffline ev reportId userId body st (fst ac)), snd ac)"
| "perform ev (UpdateSubmissionOffline i body st) ac =
     (snd (updateSubmissionOffline ev i body st (fst ac)), snd ac)"
| "perform ev (SaveSubmissionOffline_begin reportId userId body st) ac =
     (snd (saveSubmissionOffline_begin ev reportId userId body st (fst ac)), snd ac)"
| "perform ev (UpdateSubmissionOffline_begin i body st) ac =
     (snd (updateSubmissionOffline_begin ev i body st (fst ac)), snd ac)"
| "perform ev (AddToSyncQueue newId now item) ac =
     on_database (\<lambda>s. after_result s (addToSyncQueue newId now item s)) ac"
| "perform ev ForcSync ac =
     (if isOnline (syncService (fst ac)) then (startSync_unawaited (fst ac), snd ac) else ac)"
| "perform ev (NetworkEvent connected) ac = (networkListener connected (fst ac), snd ac)"
| "perform ev IntervalCallback ac =
     (if syncInterval (syncService (fst ac)) then (intervalCallback (fst ac), snd ac) else ac)"
| "perform ev PassStep ac = ac"
| "perform ev ClearFailedSyncItems ac = (snd (clearFailedSyncItems (fst ac)), snd ac)"
| "perform ev ClearAllData ac = on_database (\<lambda>s. after s (clearAllData s)) ac"

text \<open>
  A pass in flight, between two of its steps: in the loop of \<^verbatim>\<open>processSyncQueue\<close>, with
  those of the items it fetched that it has not sent yet, or in the loop of
  \<^verbatim>\<open>syncPendingSubmissions\<close>, with those of the submissions it fetched that it has not sent
  yet; the number counts the requests the loop has made. The lists are the ones the pass
  read when it fetched them, whatever has happened to the tables since.
\<close>

datatype pass = Idle | InQueue "sync_item list" nat | InSubmissions "submission list" nat

text \<open>The \<^verbatim>\<open>catch\<close> and \<^verbatim>\<open>finally\<close> of \<^verbatim>\<open>startSync\<close> after an error.\<close>

definition pass_failed :: "app \<Rightarrow> database_service \<Rightarrow> app" where
  "pass_failed a s' =
     \<lparr>databaseService = s', syncService = (syncService a)\<lparr>syncInProgress := False\<rparr>\<rparr>"

text \<open>
  A call has started a pass when it leaves \<^verbatim>\<open>syncInProgress\<close> set that was not set
  before. \<^verbatim>\<open>startSync\<close> has then run on into \<^verbatim>\<open>processSyncQueue\<close> and that into
  \<^verbatim>\<open>getPendingSyncItems\<close>, which has sent its query before the call returns: the pass has
  the pending items of that moment. \<open>a\<close> is the application before the call, \<open>a'\<close> after it.
\<close>

definition launched :: "app \<Rightarrow> app \<Rightarrow> pass \<Rightarrow> pass \<times> app" where
  "launched a a' p =
     (if syncInProgress (syncService a') \<and> \<not> syncInProgress (syncService a)
      then (case getPendingSyncItems (databaseService a') of
              Inl e \<Rightarrow> (Idle, pass_failed a' (databaseService a'))
            | Inr pendingItems \<Rightarrow> (InQueue pendingItems 0, a'))
      else (p, a'))"

text \<open>
  One step of the pass. In a loop it is one iteration, the loop of the source run on the
  one item, which is the item as the pass fetched it: the request comes back and the
  statement that records its outcome is sent. The request reads nothing of the store and
  writes nothing to it, so that an operation that runs between the two has the effect it
  has when it runs before the step. When the loop of the queue is over,
  \<^verbatim>\<open>syncPendingSubmissions\<close> fetches the submissions of \<^verbatim>\<open>'current_user_id'\<close> and keeps the
  pending ones. When the loop of the submissions is over, the timer is set and the flag
  lowered. An error that leaves a loop ends the pass.
\<close>

fun pass_step :: "env \<Rightarrow> pass \<Rightarrow> app \<Rightarrow> pass \<times> app" where
  "pass_step ev Idle a = (Idle, a)"
| "pass_step ev (InQueue (item # items) n) a =
     (case processItems ev n [item] (databaseService a) of
        (Some e, s') \<Rightarrow> (Idle, pass_failed a s')
      | (None, s') \<Rightarrow> (InQueue items (Suc n), a\<lparr>databaseService := s'\<rparr>))"
| "pass_step ev (InQueue [] n) a =
     (case getSubmissionsByUserId ''current_user_id'' (databaseService a) of
        Inl e \<Rightarrow> (Idle, pass_failed a (databaseService a))
      | Inr (submissions, s') \<Rightarrow>
          (InSubmissions (filter (\<lambda>x. s_syncStatus x = Pending) submissions) 0,
           a\<lparr>databaseService := s'\<rparr>))"
| "pass_step ev (InSubmissions (x # xs) n) a =
     (case syncSubmissions ev n [x] (databaseService a) of
        (Some e, s') \<Rightarrow> (Idle, pass_failed a s')
      | (None, s') \<Rightarrow> (InSubmissions xs (Suc n), a\<lparr>databaseService := s'\<rparr>))"
| "pass_step ev (InSubmissions [] n) a =
     (Idle, \<lparr>databaseService = databaseService a,
             syncService = (scheduleSyncInterval (syncService a))\<lparr>syncInProgress := False\<rparr>\<rparr>)"

text \<open>The steps of a pass that nothing interrupts, one after the other.\<close>

fun pass_steps :: "nat \<Rightarrow> env \<Rightarrow> pass \<times> app \<Rightarrow> pass \<times> app" where
  "pass_steps 0 ev pa = pa"
| "pass_steps (Suc k) ev pa = pass_steps k ev (pass_step ev (fst pa) (snd pa))"

text \<open>The application with the pass in flight, and an operation on it: a step of the pass,
  or a call, which may start a pass.\<close>

definition run ::
  "env \<Rightarrow> operation \<Rightarrow> (app \<times> auth_context) \<times> pass \<Rightarrow> (app \<times> auth_context) \<times> pass" where
  "run ev op st =
     (if op = PassStep
      then (case pass_step ev (snd st) (fst (fst st)) of
              (p', a') \<Rightarrow> ((a', snd (fst st)), p'))
      else (case launched (fst (fst st)) (fst (perform ev op (fst st))) (snd st) of
              (p', a') \<Rightarrow> ((a', snd (perform ev op (fst st))), p')))"

text \<open>A history of the application: the operations in the order in which they happen, each
  with the environment it meets.\<close>

fun runs ::
  "(env \<times> operation) list \<Rightarrow> (app \<times> auth_context) \<times> pass \<Rightarrow> (app \<times> auth_context) \<times> pass" where
  "runs [] st = st"
| "runs (eo # history) st = runs history (run (fst eo) (snd eo) st)"

definition submissions_of :: "app \<times> auth_context \<Rightarrow> submission list" where
  "submissions_of ac = report_submissions (reports_db (databaseService (fst ac)))"

text \<open>The local edit of a submission, and the outcome of the request that the next step of
  the pass makes for the submission with the given id, if it makes one.\<close>

definition edits :: "operation \<Rightarrow> string \<Rightarrow> bool" where
  "edits op i =
     (case op of
        UpdateSubmissionOffline j body st \<Rightarrow> j = i
      | UpdateSubmissionOffline_begin j body st \<Rightarrow> j = i
      | _ \<Rightarrow> False)"

definition request_for :: "env \<Rightarrow> pass \<Rightarrow> string \<Rightarrow> error option option" where
  "request_for ev p i =
     (case p of
        InSubmissions (x # xs) n \<Rightarrow>
          if s_id x = i then Some (syncSubmission (submission_random ev n) x) else None
      | _ \<Rightarrow> None)"

section \<open>FillReportScreen\<close>

text \<open>The service has no query of a submission by its id; \<^verbatim>\<open>autoSave\<close> reads the
  submission it has just saved from the user's submissions:
  \<^verbatim>\<open>(await getSubmissionsByUserId(user.id)).find(s => s.id === submissionId)\<close>.\<close>

definition findSubmission :: "string \<Rightarrow> string \<Rightarrow> database_service \<Rightarrow> error + submission option" where
  "findSubmission userId submissionId s =
     (case getSubmissionsByUserId userId s of
        Inl e \<Rightarrow> Inl e
      | Inr (submissions, s') \<Rightarrow> Inr (find (\<lambda>x. s_id x = submissionId) submissions))"

text \<open>The value of a column after an update: the one the patch supplies, if any.\<close>

definition supplied :: "'a option \<Rightarrow> 'a \<Rightarrow> 'a" where
  "supplied v old = (case v of None \<Rightarrow> old | Some new \<Rightarrow> new)"

section \<open>Relations between a submission before and after\<close>

text \<open>\<open>same_but_sync x y\<close>: \<open>y\<close> is \<open>x\<close> up to its sync status and its time of modification.
  \<open>pass_transition x y\<close>: \<open>y\<close> has the id of \<open>x\<close> and either its sync status or, if that was
  pending, synced or error.\<close>

definition same_but_sync :: "submission \<Rightarrow> submission \<Rightarrow> bool" where
  "same_but_sync x y \<longleftrightarrow>
     y\<lparr>s_syncStatus := s_syncStatus x, s_lastModified := s_lastModified x\<rparr> = x"

definition pass_transition :: "submission \<Rightarrow> submission \<Rightarrow> bool" where
  "pass_transition x y \<longleftrightarrow>
     s_id y = s_id x \<and>
     (s_syncStatus y = s_syncStatus x
      \<or> s_syncStatus x = Pending \<and> (s_syncStatus y = Synced \<or> s_syncStatus y = SyncError))"

text \<open>\<open>transition_of ev op p x y\<close>: the sync status of \<open>y\<close> is that of \<open>x\<close>; or it went from
  pending to synced in a step of the pass \<open>p\<close> whose request for that submission resolved;
  or it went from pending to error in a step whose request for it was rejected; or it
  became pending by an edit of that submission.\<close>

definition transition_of ::
  "env \<Rightarrow> operation \<Rightarrow> pass \<Rightarrow> submission \<Rightarrow> submission \<Rightarrow> bool" where
  "transition_of ev op p x y \<longleftrightarrow>
     s_syncStatus y = s_syncStatus x
     \<or> (s_syncStatus x = Pending \<and> s_syncStatus y = Synced \<and> op = PassStep
          \<and> request_for ev p (s_id x) = Some None)
     \<or> (s_syncStatus x = Pending \<and> s_syncStatus y = SyncError \<and> op = PassStep
          \<and> (\<exists>e. request_for ev p (s_id x) = Some (Some e)))
     \<or> (s_syncStatus y = Pending \<and> edits op (s_id x))"

text \<open>The primary keys of the two tables the sync service works on: no two submissions
  and no two queue entries have the same id.\<close>

definition ids_distinct :: "database_service \<Rightarrow> bool" where
  "ids_distinct s \<longleftrightarrow>
     distinct (map s_id (report_submissions (reports_db s)))
     \<and> distinct (map q_id (sync_queue (reports_db s)))"

text \<open>
  What holds of the pass in flight whenever an operation begins: the submissions it has
  still to send have different ids, and every stored submission with the id of one of them
  is pending.
\<close>

definition pass_invariant :: "(app \<times> auth_context) \<times> pass \<Rightarrow> bool" where
  "pass_invariant st \<longleftrightarrow>
     ids_distinct (databaseService (fst (fst st)))
     \<and> (case snd st of
          InSubmissions xs n \<Rightarrow>
            distinct (map s_id xs)
            \<and> (\<forall>x\<in>set xs. \<forall>r\<in>set (submissions_of (fst st)).
                  s_id r = s_id x \<longrightarrow> s_syncStatus r = Pending)
        | _ \<Rightarrow> True)"

section \<open>Sample states\<close>

text \<open>States and inputs at which the theorems below are instantiated.\<close>

definition empty_database :: database where
  "empty_database =
     \<lparr>users = [], projects = [], reports = [], report_submissions = [], sync_queue = []\<rparr>"

definition open_service :: "database \<Rightarrow> database_service" where
  "open_service d =
     \<lparr>platform_os = Native, sqlite_open_error = None, db_handle = True, reports_db = d\<rparr>"

definition web_service :: database_service where
  "web_service =
     \<lparr>platform_os = Web, sqlite_open_error = None, db_handle = False,
      reports_db = empty_database\<rparr>"

definition sample_app :: "bool \<Rightarrow> database \<Rightarrow> app" where
  "sample_app online d =
     \<lparr>databaseService = open_service d,
      syncService = \<lparr>isOnline = online, syncInProgress = False, syncInterval = False\<rparr>\<rparr>"

definition queue_entry :: "string \<Rightarrow> string \<Rightarrow> int \<Rightarrow> timestamp \<Rightarrow> sync_item" where
  "queue_entry i entityId n created =
     \<lparr>q_type = TSubmission, q_action = Create, q_entityId = entityId, q_data = JObject [],
      q_attempts = n, q_lastAttempt = None, q_error = None, q_createdAt = created, q_id = i\<rparr>"

definition sample_queue :: "sync_item list" where
  "sample_queue =
     [queue_entry ''q1'' ''s1'' 0 ''2024-05-03T10:00:00.000Z'',
      queue_entry ''q2'' ''s2'' 3 ''2024-05-01T10:00:00.000Z'',
      queue_entry ''q3'' ''s3'' 2 ''2024-05-02T10:00:00.000Z'']"

definition sample_user :: user where
  "sample_user =
     \<lparr>u_email = ''ana@example.com'', u_name = ''ana'', u_role = Admin,
      u_createdAt = ''2024-05-01T09:00:00.000Z'', u_updatedAt = ''2024-05-01T09:00:00.000Z'',
      u_id = ''lvo2k3f1x9''\<rparr>"

definition sample_session :: auth_context where
  "sample_session =
     \<lparr>state = \<lparr>isAuthenticated = True, auth_user = Some sample_user,
                token = Some ''token_1714554000000'', refreshToken = Some ''refresh_1714554000000''\<rparr>,
      isLoading = False,
      secureStore = \<lparr>auth_token = Some ''token_1714554000000'',
                     refresh_token = Some ''refresh_1714554000000'',
                     user_data = Some sample_user\<rparr>\<rparr>"

definition signed_out :: auth_context where
  "signed_out =
     \<lparr>state = initialState, isLoading = False,
      secureStore = \<lparr>auth_token = None, refresh_token = None, user_data = None\<rparr>\<rparr>"

definition sample_submission :: "string \<Rightarrow> sync_status \<Rightarrow> submission" where
  "sample_submission i st =
     \<lparr>s_reportId = ''r1'', s_userId = ''lvo2k3f1x9'', s_data = JObject [(''f1'', JString ''hello'')],
      s_status = Draft, s_submittedAt = None, s_lastModified = ''2024-05-01T10:00:00.000Z'',
      s_version = 1, s_isOffline = True, s_syncStatus = st, s_id = i\<rparr>"

text \<open>A pending submission of the user whose id the pass looks for.\<close>

definition current_user_submission :: submission where
  "current_user_submission = (sample_submission ''s1'' Pending)\<lparr>s_userId := ''current_user_id''\<rparr>"

definition sample_report :: report where
  "sample_report =
     \<lparr>r_projectId = ''p1'', r_title = ''Visit'', r_description = Some ''Site visit'',
      r_fields = JArray [], r_permissions = JObject [], r_status = ReportActive,
      r_createdAt = ''2024-05-01T09:30:00.000Z'', r_updatedAt = ''2024-05-01T09:30:00.000Z'',
      r_createdBy = ''lvo2k3f1x9'', r_id = ''r1''\<rparr>"

text \<open>An environment that hands out the given ids, reads one time on the clock, and in
  which every request succeeds (\<open>ok\<close>) or every request fails.\<close>

definition sample_env :: "string list \<Rightarrow> bool \<Rightarrow> env" where
  "sample_env ids ok =
     \<lparr>generateId = (\<lambda>n. ids ! n), date = (\<lambda>n. ''2024-05-04T12:00:00.000Z''),
      date_now = (\<lambda>n. ''1714824000000''),
      queue_random = (\<lambda>n. ok), queue_date = (\<lambda>n. ''2024-05-04T12:00:01.000Z''),
      submission_random = (\<lambda>n. ok), submission_date = (\<lambda>n. ''2024-05-04T12:00:02.000Z'')\<rparr>"

text \<open>
  A submission saved while every request fails: the application after the call, after the
  pass that the call started, and after two calls of \<^verbatim>\<open>forcSync\<close> more; the submission and
  the queue entry that the call writes, the entry with the attempts, the time of the last one
  and the error recorded on it.
\<close>

definition saved_app :: app where
  "saved_app =
     snd (saveSubmissionOffline (sample_env [''s1'', ''q1''] False) ''r1'' ''lvo2k3f1x9''
       (JObject [(''f1'', JString ''hello'')]) FillSubmitted (sample_app True empty_database))"

definition failed_once :: app where
  "failed_once = snd (startSync_pass (sample_env [] False) saved_app)"

definition failed_thrice :: app where
  "failed_thrice =
     snd (forcSync (sample_env [] False) (snd (forcSync (sample_env [] False) failed_once)))"

definition saved_submission :: submission where
  "saved_submission =
     \<lparr>s_reportId = ''r1'', s_userId = ''lvo2k3f1x9'',
      s_data = JObject [(''f1'', JString ''hello'')],
      s_status = Submitted, s_submittedAt = Some ''2024-05-04T12:00:00.000Z'',
      s_lastModified = ''2024-05-04T12:00:00.000Z'', s_version = 1, s_isOffline = True,
      s_syncStatus = Pending, s_id = ''s1''\<rparr>"

definition saved_entry :: "int \<Rightarrow> timestamp option \<Rightarrow> string option \<Rightarrow> sync_item" where
  "saved_entry n attempted err =
     \<lparr>q_type = TSubmission, q_action = Create, q_entityId = ''s1'',
      q_data = JObject [(''reportId'', JString ''r1''), (''userId'', JString ''lvo2k3f1x9''),
         (''data'', JObject [(''f1'', JString ''hello'')]), (''status'', JString ''submitted''),
         (''submittedAt'', JString ''2024-05-04T12:00:00.000Z'')],
      q_attempts = n, q_lastAttempt = attempted, q_error = err,
      q_createdAt = ''2024-05-04T12:00:00.000Z'', q_id = ''q1''\<rparr>"

section \<open>Lists and rows\<close>

lemma find_new_row:
  "i \<notin> set (map f xs) \<Longrightarrow> f y = i \<Longrightarrow> find (\<lambda>u. f u = i) (xs @ [y]) = Some y"
  by (induction xs) auto

lemma find_absent: "i \<notin> set (map f xs) \<Longrightarrow> find (\<lambda>u. f u = i) xs = None"
  by (induction xs) auto

lemma find_present: "i \<in> set (map f xs) \<Longrightarrow> \<exists>y. find (\<lambda>u. f u = i) xs = Some y"
  by (induction xs) auto

lemma find_Some_holds: "find P ys = Some z \<Longrightarrow> P z \<and> z \<in> set ys"
  by (induction ys) (auto split: if_splits)

lemma find_unique:
  assumes "y \<in> set ys" and "P y" and "\<And>z. z \<in> set ys \<Longrightarrow> P z \<Longrightarrow> z = y"
  shows "find P ys = Some y"
proof -
  from assms(1,2) have "find P ys \<noteq> None"
    unfolding find_None_iff by blast
  then obtain z where z: "find P ys = Some z"
    by blast
  then have "P z \<and> z \<in> set ys"
    by (rule find_Some_holds)
  then have "z = y"
    using assms(3) by blast
  with z show ?thesis
    by (simp only:)
qed

lemma map_same: "(\<And>x. x \<in> set xs \<Longrightarrow> f x = x) \<Longrightarrow> map f xs = xs"
  by (induction xs) auto

lemma same_handle: "\<not> db_handle s \<Longrightarrow> s\<lparr>db_handle := False\<rparr> = s"
  by (cases s) simp

section \<open>The sync queue\<close>

text \<open>
  C7. With the database open, \<^verbatim>\<open>getPendingSyncItems\<close> returns exactly the entries of the
  queue whose attempts are below 3 (as a multiset: each such entry once, and no other), in
  ascending order of \<^verbatim>\<open>createdAt\<close>. It is a query: the entries at or above 3 stay in the
  table.
\<close>

theorem getPendingSyncItems_active_fifo:
  assumes "db_handle s"
  shows "\<exists>items. getPendingSyncItems s = Inr items
           \<and> mset items = filter_mset (\<lambda>q. q_attempts q < 3) (mset (sync_queue (reports_db s)))
           \<and> sorted (map q_createdAt items)"
  using assms by (simp add: getPendingSyncItems_def order_asc_def)

theorem getPendingSyncItems_active_fifo_witness:
  "db_handle (open_service (empty_database\<lparr>sync_queue := sample_queue\<rparr>))
   \<and> (\<exists>items. getPendingSyncItems (open_service (empty_database\<lparr>sync_queue := sample_queue\<rparr>))
                = Inr items
         \<and> mset items = filter_mset (\<lambda>q. q_attempts q < 3)
              (mset (sync_queue (reports_db
                (open_service (empty_database\<lparr>sync_queue := sample_queue\<rparr>)))))
         \<and> sorted (map q_createdAt items))
   \<and> getPendingSyncItems (open_service (empty_database\<lparr>sync_queue := sample_queue\<rparr>))
       = Inr [queue_entry ''q3'' ''s3'' 2 ''2024-05-02T10:00:00.000Z'',
              queue_entry ''q1'' ''s1'' 0 ''2024-05-03T10:00:00.000Z'']"
  using getPendingSyncItems_active_fifo
    [of "open_service (empty_database\<lparr>sync_queue := sample_queue\<rparr>)"]
  by (simp add: getPendingSyncItems_def open_service_def empty_database_def sample_queue_def
      queue_entry_def order_asc_def)

text \<open>\<^verbatim>\<open>clearFailedSyncItems\<close> looks for the failed entries among the pending ones, which all
  have fewer than 3 attempts: with the database open it removes nothing.\<close>

lemma clearFailedSyncItems_removes_nothing:
  "db_handle (databaseService a) \<Longrightarrow> clearFailedSyncItems a = (None, a)"
  by (simp add: clearFailedSyncItems_def getPendingSyncItems_def order_asc_def
      filter_sort [symmetric])

text \<open>
  C1. \<^verbatim>\<open>clearFailedSyncItems\<close> is to delete every entry whose attempts have reached 3. On
  the sample queue, whose entry \<open>q2\<close> has 3 attempts, it returns without an error and
  leaves the queue as it was: \<open>q2\<close> is still there.
\<close>

theorem clearFailedSyncItems_keeps_exhausted_entry:
  "clearFailedSyncItems (sample_app True (empty_database\<lparr>sync_queue := sample_queue\<rparr>))
     = (None, sample_app True (empty_database\<lparr>sync_queue := sample_queue\<rparr>))
   \<and> queue_entry ''q2'' ''s2'' 3 ''2024-05-01T10:00:00.000Z''
       \<in> set (sync_queue (reports_db (databaseService (snd (clearFailedSyncItems
            (sample_app True (empty_database\<lparr>sync_queue := sample_queue\<rparr>)))))))
   \<and> q_attempts (queue_entry ''q2'' ''s2'' 3 ''2024-05-01T10:00:00.000Z'') = 3"
  by (simp add: clearFailedSyncItems_def getPendingSyncItems_def sample_app_def open_service_def
      empty_database_def sample_queue_def queue_entry_def order_asc_def)

section \<open>The store without a database\<close>

text \<open>
  C4, as the claim states it: without a database every operation of the store returns an
  empty or absent result and none raises. On the web, \<^verbatim>\<open>getPendingSyncItems\<close> raises.
\<close>

theorem degraded_getPendingSyncItems_raises:
  "getPendingSyncItems web_service = Inl (Error ''Database not initialized'')"
  by (simp add: getPendingSyncItems_def web_service_def not_initialized_def)

text \<open>
  C4, amended. On the web, where the handle is null, \<^verbatim>\<open>init\<close> succeeds without opening a
  database and the five queries \<^verbatim>\<open>getProjectsByUserId\<close>, \<^verbatim>\<open>getProjectById\<close>,
  \<^verbatim>\<open>getAllReports\<close>, \<^verbatim>\<open>getReportById\<close> and \<^verbatim>\<open>getSubmissionsByUserId\<close> return an empty
  list or an absent result and change nothing; every other method of the store raises
  \<^verbatim>\<open>Database not initialized\<close>.
\<close>

theorem degraded_store_operations:
  assumes "platform_os s = Web" and "\<not> db_handle s"
  shows "init s = Inr s
     \<and> getProjectsByUserId userId s = Inr ([], s)
     \<and> getProjectById i s = Inr (None, s)
     \<and> getAllReports s = Inr ([], s)
     \<and> getReportById i s = Inr (None, s)
     \<and> getSubmissionsByUserId userId s = Inr ([], s)
     \<and> createUser newId now u s = Inl (Error ''Database not initialized'')
     \<and> getUserByEmail email s = Inl (Error ''Database not initialized'')
     \<and> getUserById i s = Inl (Error ''Database not initialized'')
     \<and> createProject newId now p s = Inl (Error ''Database not initialized'')
     \<and> createReport newId now r s = Inl (Error ''Database not initialized'')
     \<and> getReportsByProjectId i s = Inl (Error ''Database not initialized'')
     \<and> updateReport now i rpatch s = Inl (Error ''Database not initialized'')
     \<and> deleteReport i s = Inl (Error ''Database not initialized'')
     \<and> getSubmissionsByReportId i s = Inl (Error ''Database not initialized'')
     \<and> createSubmission newId now x s = Inl (Error ''Database not initialized'')
     \<and> updateSubmission now i spatch s = Inl (Error ''Database not initialized'')
     \<and> getPendingSyncItems s = Inl (Error ''Database not initialized'')
     \<and> addToSyncQueue newId now item s = Inl (Error ''Database not initialized'')
     \<and> updateSyncQueueItem now i n err s = Inl (Error ''Database not initialized'')
     \<and> removeSyncQueueItem i s = Inl (Error ''Database not initialized'')
     \<and> clearAllData s = Inl (Error ''Database not initialized'')"
  using assms
  by (simp add: init_def ensureInitialized_def isInitialized_def same_handle not_initialized_def
      getProjectsByUserId_def getProjectById_def getAllReports_def getReportById_def
      getSubmissionsByUserId_def createUser_def getUserByEmail_def getUserById_def
      createProject_def createReport_def getReportsByProjectId_def updateReport_def
      deleteReport_def getSubmissionsByReportId_def createSubmission_def updateSubmission_def
      getPendingSyncItems_def addToSyncQueue_def updateSyncQueueItem_def removeSyncQueueItem_def
      clearAllData_def)

theorem degraded_store_operations_witness:
  "platform_os web_service = Web \<and> \<not> db_handle web_service
   \<and> init web_service = Inr web_service
   \<and> getSubmissionsByUserId ''lvo2k3f1x9'' web_service = Inr ([], web_service)
   \<and> getReportById ''r1'' web_service = Inr (None, web_service)
   \<and> getUserByEmail ''ana@example.com'' web_service = Inl (Error ''Database not initialized'')
   \<and> removeSyncQueueItem ''r1'' web_service = Inl (Error ''Database not initialized'')"
  using degraded_store_operations
    [of web_service "''lvo2k3f1x9''" "''r1''" _ _ _ "''ana@example.com''"]
  by (simp add: web_service_def)

section \<open>Updates\<close>

text \<open>
  C5, as the claim states it: an update of an id that is not in the store fails, and an
  update of one that is merges exactly the fields supplied. With the database open and
  no submission stored, \<^verbatim>\<open>updateSubmission\<close> of the id \<open>missing\<close> returns without an error
  and changes nothing; and a patch that supplies \<^verbatim>\<open>version: 2\<close> leaves the version of the
  submission at 1.
\<close>

theorem updateSubmission_absent_id_succeeds:
  "updateSubmission ''2024-05-04T12:00:00.000Z'' ''missing'' (only_syncStatus Synced)
       (open_service empty_database) = Inr (open_service empty_database)
   \<and> updateSubmission ''2024-05-04T12:00:00.000Z'' ''s1''
       ((only_syncStatus Pending)\<lparr>ps_version := Some 2\<rparr>)
       (open_service (empty_database\<lparr>report_submissions := [sample_submission ''s1'' Synced]\<rparr>))
     = Inr (open_service (empty_database\<lparr>report_submissions :=
         [(sample_submission ''s1'' Pending)\<lparr>s_lastModified := ''2024-05-04T12:00:00.000Z''\<rparr>]\<rparr>))
   \<and> s_version ((sample_submission ''s1'' Pending)
         \<lparr>s_lastModified := ''2024-05-04T12:00:00.000Z''\<rparr>) = 1"
  by (simp add: updateSubmission_def open_service_def empty_database_def only_syncStatus_def
      sample_submission_def submission_set_def)

text \<open>
  C5, amended. With the database open, \<^verbatim>\<open>updateSubmission\<close> and \<^verbatim>\<open>updateReport\<close> never
  fail. The row with the given id gets the \<^verbatim>\<open>data\<close>, \<^verbatim>\<open>status\<close>, \<^verbatim>\<open>submittedAt\<close> and
  \<^verbatim>\<open>syncStatus\<close> (for a report the \<^verbatim>\<open>title\<close>, \<^verbatim>\<open>description\<close>, \<^verbatim>\<open>fields\<close>,
  \<^verbatim>\<open>permissions\<close> and \<^verbatim>\<open>status\<close>) that the patch supplies and keeps its other fields,
  whatever else the patch supplies; its \<^verbatim>\<open>lastModified\<close> (\<^verbatim>\<open>updatedAt\<close>) becomes the
  current time. Every other row and table stays as it is, and so does the whole store when
  no row has the id.
\<close>

theorem update_merges_known_fields:
  assumes "db_handle s"
  shows "updateSubmission now i spatch s =
       Inr (s\<lparr>reports_db := (reports_db s)\<lparr>report_submissions :=
           map (\<lambda>x. if s_id x = i
                 then x\<lparr>s_data := supplied (ps_data spatch) (s_data x),
                        s_status := supplied (ps_status spatch) (s_status x),
                        s_submittedAt :=
                          supplied (map_option Some (ps_submittedAt spatch)) (s_submittedAt x),
                        s_syncStatus := supplied (ps_syncStatus spatch) (s_syncStatus x),
                        s_lastModified := now\<rparr>
                 else x) (report_submissions (reports_db s))\<rparr>\<rparr>)
     \<and> updateReport now j rpatch s =
       Inr (s\<lparr>reports_db := (reports_db s)\<lparr>reports :=
           map (\<lambda>r. if r_id r = j
                 then r\<lparr>r_title := supplied (pr_title rpatch) (r_title r),
                        r_description :=
                          supplied (map_option Some (pr_description rpatch)) (r_description r),
                        r_fields := supplied (pr_fields rpatch) (r_fields r),
                        r_permissions := supplied (pr_permissions rpatch) (r_permissions r),
                        r_status := supplied (pr_status rpatch) (r_status r),
                        r_updatedAt := now\<rparr>
                 else r) (reports (reports_db s))\<rparr>\<rparr>)
     \<and> (i \<notin> set (map s_id (report_submissions (reports_db s)))
          \<longrightarrow> updateSubmission now i spatch s = Inr s)
     \<and> (j \<notin> set (map r_id (reports (reports_db s)))
          \<longrightarrow> updateReport now j rpatch s = Inr s)"
proof -
  have a: "i \<notin> set (map s_id xs) \<Longrightarrow> map (\<lambda>x. if s_id x = i then f x else x) xs = xs"
    for f and xs :: "submission list"
    by (rule map_same) auto
  have b: "j \<notin> set (map r_id xs) \<Longrightarrow> map (\<lambda>x. if r_id x = j then f x else x) xs = xs"
    for f and xs :: "report list"
    by (rule map_same) auto
  have c: "(case v of None \<Rightarrow> old | Some w \<Rightarrow> Some w) = supplied (map_option Some v) old"
    for v :: "'b option" and old
    by (cases v) (simp_all add: supplied_def)
  have d: "(case v of None \<Rightarrow> old | Some w \<Rightarrow> w) = supplied v old" for v :: "'b option" and old
    by (cases v) (simp_all add: supplied_def)
  show ?thesis
    using assms
    by (auto simp add: updateSubmission_def updateReport_def ensureInitialized_def
        isInitialized_def submission_set_def report_set_def a b c d)
qed

theorem update_merges_known_fields_witness:
  "db_handle (open_service (empty_database\<lparr>reports := [sample_report],
       report_submissions := [sample_submission ''s1'' Synced]\<rparr>))
   \<and> ''missing'' \<notin> set (map s_id [sample_submission ''s1'' Synced])
   \<and> updateSubmission ''2024-05-04T12:00:00.000Z'' ''missing'' (only_syncStatus Pending)
        (open_service (empty_database\<lparr>reports := [sample_report],
           report_submissions := [sample_submission ''s1'' Synced]\<rparr>))
      = Inr (open_service (empty_database\<lparr>reports := [sample_report],
           report_submissions := [sample_submission ''s1'' Synced]\<rparr>))
   \<and> updateSubmission ''2024-05-04T12:00:00.000Z'' ''s1'' (only_syncStatus Pending)
        (open_service (empty_database\<lparr>reports := [sample_report],
           report_submissions := [sample_submission ''s1'' Synced]\<rparr>))
      = Inr (open_service (empty_database\<lparr>reports := [sample_report],
           report_submissions :=
             [(sample_submission ''s1'' Pending)
                \<lparr>s_lastModified := ''2024-05-04T12:00:00.000Z''\<rparr>]\<rparr>))"
  using update_merges_known_fields
    [of "open_service (empty_database\<lparr>reports := [sample_report],
           report_submissions := [sample_submission ''s1'' Synced]\<rparr>)"
        "''2024-05-04T12:00:00.000Z''" "''missing''" "only_syncStatus Pending"]
    update_merges_known_fields
    [of "open_service (empty_database\<lparr>reports := [sample_report],
           report_submissions := [sample_submission ''s1'' Synced]\<rparr>)"
        "''2024-05-04T12:00:00.000Z''" "''s1''" "only_syncStatus Pending"]
  by (simp add: open_service_def empty_database_def sample_submission_def only_syncStatus_def
      supplied_def)

section \<open>The sync pass and the caller\<close>

lemma startSync_pass_resolves: "fst (startSync_pass ev a) = None"
  by (simp add: startSync_pass_def split: prod.splits option.splits)

lemma startSync_resolves: "fst (startSync ev a) = None"
  by (simp add: startSync_def startSync_pass_resolves split: prod.splits bool.splits)

lemma startSync_unawaited_database:
  "databaseService (startSync_unawaited a) = databaseService a"
  by (simp add: startSync_unawaited_def startSync_begin_def)

lemma saveSubmissionOffline_result:
  assumes "db_handle (databaseService a)"
    and "generateId ev 0 \<notin> set (map s_id (report_submissions (reports_db (databaseService a))))"
    and "generateId ev 1 \<notin> set (map q_id (sync_queue (reports_db (databaseService a))))"
  shows "fst (saveSubmissionOffline ev reportId userId body st a) = Inr (generateId ev 0)"
  using assms
  by (simp add: saveSubmissionOffline_def createSubmission_def addToSyncQueue_sync_def
      addToSyncQueue_def Let_def)

lemma saveSubmissionOffline_database:
  assumes "db_handle (databaseService a)"
    and "generateId ev 0 \<notin> set (map s_id (report_submissions (reports_db (databaseService a))))"
    and "generateId ev 1 \<notin> set (map q_id (sync_queue (reports_db (databaseService a))))"
  shows "databaseService (snd (saveSubmissionOffline ev reportId userId body st a)) =
     (databaseService a)\<lparr>reports_db := (reports_db (databaseService a))\<lparr>
        report_submissions := report_submissions (reports_db (databaseService a)) @
          [\<lparr>s_reportId = reportId, s_userId = userId, s_data = body, s_status = fill st,
            s_submittedAt = (if st = FillSubmitted then or_null (Some (date ev 0)) else None),
            s_lastModified = date ev 2, s_version = 1, s_isOffline = True,
            s_syncStatus = Pending, s_id = generateId ev 0\<rparr>],
        sync_queue := sync_queue (reports_db (databaseService a)) @
          [\<lparr>q_type = TSubmission, q_action = Create, q_entityId = generateId ev 0,
            q_data = JObject ([(''reportId'', JString reportId), (''userId'', JString userId),
                     (''data'', body), (''status'', JString (status_string (fill st)))]
                     @ (if st = FillSubmitted then [(''submittedAt'', JString (date ev 3))] else [])),
            q_attempts = 0, q_lastAttempt = None, q_error = None, q_createdAt = date ev 5,
            q_id = generateId ev 1\<rparr>]\<rparr>\<rparr>"
  using assms
  by (simp add: saveSubmissionOffline_def createSubmission_def addToSyncQueue_sync_def
      addToSyncQueue_def Let_def startSync_unawaited_database or_null_def)

lemma updateSubmissionOffline_result:
  assumes "db_handle (databaseService a)"
    and "generateId ev 0 \<notin> set (map q_id (sync_queue (reports_db (databaseService a))))"
  shows "fst (updateSubmissionOffline ev i body st a) = None"
  using assms
  by (simp add: updateSubmissionOffline_def updateSubmission_def addToSyncQueue_sync_def
      addToSyncQueue_def Let_def)

section \<open>One pass over the queue\<close>

lemma in_map_ids: "x \<in> set xs \<Longrightarrow> f x = i \<Longrightarrow> i \<in> set (map f xs)"
  by force

lemma not_in_map_ids: "i \<notin> set (map f xs) \<Longrightarrow> x \<in> set xs \<Longrightarrow> f x \<noteq> i"
  by force

lemma queue_ids_after_update:
  "map q_id (map (\<lambda>q. if P q then q\<lparr>q_attempts := a, q_lastAttempt := b, q_error := c\<rparr> else q) xs)
     = map q_id xs"
  by (induction xs) simp_all

lemma processItems_step:
  assumes "db_handle s"
  shows "processItems ev n (item # items) s =
     processItems ev (Suc n) items
       (s\<lparr>reports_db := (reports_db s)\<lparr>sync_queue :=
          (if queue_random ev n
           then filter (\<lambda>q. q_id q \<noteq> q_id item) (sync_queue (reports_db s))
           else map (\<lambda>q. if q_id q = q_id item
                     then q\<lparr>q_attempts := q_attempts item + 1,
                            q_lastAttempt := Some (queue_date ev n),
                            q_error := Some ''Network error''\<rparr>
                     else q) (sync_queue (reports_db s)))\<rparr>\<rparr>)"
  using assms
  by (simp add: syncItem_def makeHttpRequest_def removeSyncQueueItem_def
      updateSyncQueueItem_def error_message_def or_null_def cong: if_cong)

lemma processItems_open:
  "db_handle s \<Longrightarrow>
     fst (processItems ev n items s) = None \<and> db_handle (snd (processItems ev n items s))"
proof (induction items arbitrary: n s)
  case Nil
  then show ?case by simp
next
  case (Cons item items)
  show ?case
    unfolding processItems_step [OF Cons.prems]
    by (rule Cons.IH) (simp add: Cons.prems)
qed

lemma processItems_keeps_others:
  assumes "db_handle s" and "q \<in> set (sync_queue (reports_db s))"
    and "q_id q \<notin> set (map q_id items)"
  shows "q \<in> set (sync_queue (reports_db (snd (processItems ev n items s))))"
  using assms
proof (induction items arbitrary: n s)
  case Nil
  then show ?case by simp
next
  case (Cons item items)
  from Cons.prems(3) have ne: "q_id q \<noteq> q_id item" and rest: "q_id q \<notin> set (map q_id items)"
    by auto
  show ?case
    unfolding processItems_step [OF Cons.prems(1)]
  proof (rule Cons.IH)
    show "q_id q \<notin> set (map q_id items)" by (rule rest)
  qed (use Cons.prems(1,2) ne in auto)
qed

lemma processItems_no_new_ids:
  assumes "db_handle s"
  shows "set (map q_id (sync_queue (reports_db (snd (processItems ev n items s)))))
           \<subseteq> set (map q_id (sync_queue (reports_db s)))"
  using assms
proof (induction items arbitrary: n s)
  case Nil
  then show ?case by simp
next
  case (Cons item items)
  let ?s1 = "s\<lparr>reports_db := (reports_db s)\<lparr>sync_queue :=
          (if queue_random ev n
           then filter (\<lambda>q. q_id q \<noteq> q_id item) (sync_queue (reports_db s))
           else map (\<lambda>q. if q_id q = q_id item
                     then q\<lparr>q_attempts := q_attempts item + 1,
                            q_lastAttempt := Some (queue_date ev n),
                            q_error := Some ''Network error''\<rparr>
                     else q) (sync_queue (reports_db s)))\<rparr>\<rparr>"
  have "db_handle ?s1" using Cons.prems by simp
  then have "set (map q_id (sync_queue (reports_db (snd (processItems ev (Suc n) items ?s1)))))
           \<subseteq> set (map q_id (sync_queue (reports_db ?s1)))"
    by (rule Cons.IH)
  also have "\<dots> \<subseteq> set (map q_id (sync_queue (reports_db s)))"
  proof (cases "queue_random ev n")
    case True
    then show ?thesis by auto
  next
    case False
    then have eq: "sync_queue (reports_db ?s1) =
        map (\<lambda>q. if q_id q = q_id item
                     then q\<lparr>q_attempts := q_attempts item + 1,
                            q_lastAttempt := Some (queue_date ev n),
                            q_error := Some ''Network error''\<rparr>
                     else q) (sync_queue (reports_db s))"
      by simp
    show ?thesis
      unfolding eq queue_ids_after_update by (rule subset_refl)
  qed
  finally show ?case
    unfolding processItems_step [OF Cons.prems] .
qed

lemma processItems_item:
  assumes "db_handle s" and "distinct (map q_id items)"
    and "set items \<subseteq> set (sync_queue (reports_db s))" and "k < length items"
  shows "(queue_random ev (n + k) \<longrightarrow>
            q_id (items ! k) \<notin> set (map q_id (sync_queue (reports_db
              (snd (processItems ev n items s))))))
       \<and> (\<not> queue_random ev (n + k) \<longrightarrow>
            (items ! k)\<lparr>q_attempts := q_attempts (items ! k) + 1,
                         q_lastAttempt := Some (queue_date ev (n + k)),
                         q_error := Some ''Network error''\<rparr>
              \<in> set (sync_queue (reports_db (snd (processItems ev n items s)))))"
  using assms
proof (induction items arbitrary: n s k)
  case Nil
  then show ?case by simp
next
  case (Cons item items)
  let ?s1 = "s\<lparr>reports_db := (reports_db s)\<lparr>sync_queue :=
          (if queue_random ev n
           then filter (\<lambda>q. q_id q \<noteq> q_id item) (sync_queue (reports_db s))
           else map (\<lambda>q. if q_id q = q_id item
                     then q\<lparr>q_attempts := q_attempts item + 1,
                            q_lastAttempt := Some (queue_date ev n),
                            q_error := Some ''Network error''\<rparr>
                     else q) (sync_queue (reports_db s)))\<rparr>\<rparr>"
  have open1: "db_handle ?s1" using Cons.prems(1) by simp
  have fresh: "q_id item \<notin> set (map q_id items)" and dist: "distinct (map q_id items)"
    using Cons.prems(2) by auto
  have step: "processItems ev n (item # items) s = processItems ev (Suc n) items ?s1"
    by (rule processItems_step [OF Cons.prems(1)])
  show ?case
  proof (cases k)
    case 0
    show ?thesis
    proof (cases "queue_random ev n")
      case True
      have "q_id item \<notin> set (map q_id (sync_queue (reports_db ?s1)))"
        using True by auto
      with processItems_no_new_ids [OF open1, of ev "Suc n" items]
      show ?thesis using 0 True unfolding step by auto
    next
      case False
      let ?u = "item\<lparr>q_attempts := q_attempts item + 1,
          q_lastAttempt := Some (queue_date ev n), q_error := Some ''Network error''\<rparr>"
      have "item \<in> set (sync_queue (reports_db s))" using Cons.prems(3) by simp
      then have "?u \<in> set (sync_queue (reports_db ?s1))"
        using False by (auto simp add: image_iff intro!: bexI [of _ item])
      moreover have "q_id ?u \<notin> set (map q_id items)" using fresh by simp
      ultimately have "?u \<in> set (sync_queue (reports_db (snd (processItems ev (Suc n) items ?s1))))"
        by (rule processItems_keeps_others [OF open1])
      then show ?thesis using 0 False unfolding step by simp
    qed
  next
    case (Suc j)
    have sub: "set items \<subseteq> set (sync_queue (reports_db ?s1))"
    proof
      fix q assume q: "q \<in> set items"
      then have "q \<in> set (sync_queue (reports_db s))" using Cons.prems(3) by auto
      moreover have "q_id q \<noteq> q_id item" using fresh q by (rule not_in_map_ids)
      ultimately show "q \<in> set (sync_queue (reports_db ?s1))" by auto
    qed
    have j: "j < length items" using Cons.prems(4) Suc by simp
    from Cons.IH [OF open1 dist sub j, of "Suc n"]
    show ?thesis unfolding step Suc by simp
  qed
qed

section \<open>One pass over the pending submissions\<close>

lemma syncSubmissions_closed: "\<not> db_handle s \<Longrightarrow> snd (syncSubmissions ev n xs s) = s"
  by (cases xs) (simp_all add: updateSubmission_def split: option.splits)

lemma syncSubmissions_step:
  assumes "db_handle s"
  shows "syncSubmissions ev n (x # xs) s =
     syncSubmissions ev (Suc n) xs
       (s\<lparr>reports_db := (reports_db s)\<lparr>report_submissions :=
          map (\<lambda>y. if s_id y = s_id x
                then y\<lparr>s_syncStatus := (if submission_random ev n then Synced else SyncError),
                       s_lastModified := submission_date ev n\<rparr>
                else y) (report_submissions (reports_db s))\<rparr>\<rparr>)"
  using assms
  by (simp add: syncSubmission_def makeHttpRequest_def updateSubmission_def submission_set_def
      only_syncStatus_def cong: if_cong)

lemma list_all2_map_same: "(\<And>x. x \<in> set xs \<Longrightarrow> R x (g x)) \<Longrightarrow> list_all2 R xs (map g xs)"
  by (induction xs) auto

lemma same_but_sync_trans: "same_but_sync x y \<Longrightarrow> same_but_sync y z \<Longrightarrow> same_but_sync x z"
  by (cases x; cases y; cases z) (simp add: same_but_sync_def)

lemma pass_transition_trans:
  "pass_transition x y \<Longrightarrow> pass_transition y z \<Longrightarrow> pass_transition x z"
  by (auto simp add: pass_transition_def)

lemma syncSubmissions_frame:
  "\<exists>ys. snd (syncSubmissions ev n xs s) = s\<lparr>reports_db := (reports_db s)\<lparr>report_submissions := ys\<rparr>\<rparr>
        \<and> list_all2 same_but_sync (report_submissions (reports_db s)) ys"
proof (induction xs arbitrary: n s)
  case Nil
  have "list_all2 same_but_sync (report_submissions (reports_db s)) (report_submissions (reports_db s))"
    by (rule list_all2_refl) (simp add: same_but_sync_def)
  then show ?case
    by (intro exI [of _ "report_submissions (reports_db s)"]) simp
next
  case (Cons x xs)
  show ?case
  proof (cases "db_handle s")
    case False
    have "list_all2 same_but_sync (report_submissions (reports_db s)) (report_submissions (reports_db s))"
      by (rule list_all2_refl) (simp add: same_but_sync_def)
    then show ?thesis
      unfolding syncSubmissions_closed [OF False]
      by (intro exI [of _ "report_submissions (reports_db s)"]) simp
  next
    case True
    let ?g = "\<lambda>y. if s_id y = s_id x
                then y\<lparr>s_syncStatus := (if submission_random ev n then Synced else SyncError),
                       s_lastModified := submission_date ev n\<rparr>
                else y"
    let ?s1 = "s\<lparr>reports_db := (reports_db s)\<lparr>report_submissions :=
          map ?g (report_submissions (reports_db s))\<rparr>\<rparr>"
    from Cons.IH [of "Suc n" ?s1] obtain ys where
      ys: "snd (syncSubmissions ev (Suc n) xs ?s1) =
             ?s1\<lparr>reports_db := (reports_db ?s1)\<lparr>report_submissions := ys\<rparr>\<rparr>"
      and rel: "list_all2 same_but_sync (report_submissions (reports_db ?s1)) ys"
      by blast
    have "list_all2 same_but_sync (report_submissions (reports_db s))
            (map ?g (report_submissions (reports_db s)))"
      by (rule list_all2_map_same) (simp add: same_but_sync_def)
    then have first: "list_all2 same_but_sync (report_submissions (reports_db s))
            (report_submissions (reports_db ?s1))"
      by simp
    have "list_all2 same_but_sync (report_submissions (reports_db s)) ys"
      by (rule list_all2_trans [OF _ first rel]) (rule same_but_sync_trans)
    moreover have "snd (syncSubmissions ev n (x # xs) s) =
        s\<lparr>reports_db := (reports_db s)\<lparr>report_submissions := ys\<rparr>\<rparr>"
      unfolding syncSubmissions_step [OF True] ys by simp
    ultimately show ?thesis by blast
  qed
qed

lemma syncSubmissions_transitions:
  assumes "distinct (map s_id xs)"
    and "\<And>x r. x \<in> set xs \<Longrightarrow> r \<in> set (report_submissions (reports_db s))
           \<Longrightarrow> s_id r = s_id x \<Longrightarrow> s_syncStatus r = Pending"
  shows "list_all2 pass_transition (report_submissions (reports_db s))
           (report_submissions (reports_db (snd (syncSubmissions ev n xs s))))"
  using assms
proof (induction xs arbitrary: n s)
  case Nil
  show ?case
    by (simp add: list_all2_refl pass_transition_def)
next
  case (Cons x xs)
  show ?case
  proof (cases "db_handle s")
    case False
    show ?thesis
      unfolding syncSubmissions_closed [OF False]
      by (simp add: list_all2_refl pass_transition_def)
  next
    case True
    let ?g = "\<lambda>y. if s_id y = s_id x
                then y\<lparr>s_syncStatus := (if submission_random ev n then Synced else SyncError),
                       s_lastModified := submission_date ev n\<rparr>
                else y"
    let ?s1 = "s\<lparr>reports_db := (reports_db s)\<lparr>report_submissions :=
          map ?g (report_submissions (reports_db s))\<rparr>\<rparr>"
    have first: "list_all2 pass_transition (report_submissions (reports_db s))
            (report_submissions (reports_db ?s1))"
    proof -
      have "pass_transition r (?g r)" if "r \<in> set (report_submissions (reports_db s))" for r
      proof (cases "s_id r = s_id x")
        case True
        with Cons.prems(2) [of x r] that have "s_syncStatus r = Pending" by simp
        with True show ?thesis by (simp add: pass_transition_def)
      next
        case False
        then show ?thesis by (simp add: pass_transition_def)
      qed
      then have "list_all2 pass_transition (report_submissions (reports_db s))
            (map ?g (report_submissions (reports_db s)))"
        by (rule list_all2_map_same)
      then show ?thesis by simp
    qed
    have dist: "distinct (map s_id xs)" and fresh: "s_id x \<notin> set (map s_id xs)"
      using Cons.prems(1) by auto
    have second: "list_all2 pass_transition (report_submissions (reports_db ?s1))
           (report_submissions (reports_db (snd (syncSubmissions ev (Suc n) xs ?s1))))"
    proof (rule Cons.IH [OF dist])
      fix x' r'
      assume x': "x' \<in> set xs" and r': "r' \<in> set (report_submissions (reports_db ?s1))"
        and same: "s_id r' = s_id x'"
      from r' obtain r where r: "r \<in> set (report_submissions (reports_db s))" and g: "r' = ?g r"
        by auto
      have ne: "s_id x' \<noteq> s_id x" using fresh x' by (rule not_in_map_ids)
      have idr: "s_id r' = s_id r" unfolding g by simp
      with same ne have "s_id r \<noteq> s_id x" by simp
      then have "r' = r" unfolding g by simp
      moreover have "s_syncStatus r = Pending"
        using Cons.prems(2) [of x' r] x' r same idr by simp
      ultimately show "s_syncStatus r' = Pending" by simp
    qed
    have "list_all2 pass_transition (report_submissions (reports_db s))
           (report_submissions (reports_db (snd (syncSubmissions ev (Suc n) xs ?s1))))"
      by (rule list_all2_trans [OF _ first second]) (rule pass_transition_trans)
    then show ?thesis
      unfolding syncSubmissions_step [OF True] .
  qed
qed

section \<open>What a pass does to the submissions\<close>

lemma distinct_ids_same:
  "distinct (map f xs) \<Longrightarrow> x \<in> set xs \<Longrightarrow> y \<in> set xs \<Longrightarrow> f x = f y \<Longrightarrow> x = y"
  by (auto simp add: distinct_map dest: inj_onD)

lemma distinct_ids_sort_key: "distinct (map g (sort_key f xs)) = distinct (map g xs)"
  by (rule mset_eq_imp_distinct_iff) simp

lemma distinct_ids_query:
  assumes "distinct (map g xs)"
  shows "distinct (map g (filter P (order_desc f (filter Q xs))))"
    and "distinct (map g (order_asc f (filter Q xs)))"
  using assms
  by (simp_all add: order_desc_def order_asc_def distinct_map_filter rev_map [symmetric]
      distinct_ids_sort_key)

lemma ensureInitialized_database:
  "ensureInitialized s = Inr s' \<Longrightarrow> reports_db s' = reports_db s"
  by (auto simp add: ensureInitialized_def init_def split: if_splits option.splits)

lemma processItems_closed: "\<not> db_handle s \<Longrightarrow> snd (processItems ev n items s) = s"
  by (cases items)
    (simp_all add: removeSyncQueueItem_def updateSyncQueueItem_def split: option.splits)

lemma processItems_submissions:
  "report_submissions (reports_db (snd (processItems ev n items s)))
     = report_submissions (reports_db s)"
proof (cases "db_handle s")
  case False
  then show ?thesis by (simp add: processItems_closed)
next
  case True
  then show ?thesis
  proof (induction items arbitrary: n s)
    case Nil
    show ?case by simp
  next
    case (Cons item items)
    show ?case
      unfolding processItems_step [OF Cons.prems]
      by (subst Cons.IH) (simp_all add: Cons.prems)
  qed
qed

lemma processSyncQueue_submissions:
  "report_submissions (reports_db (snd (processSyncQueue ev s)))
     = report_submissions (reports_db s)"
  by (simp add: processSyncQueue_def processItems_submissions split: sum.splits)

lemma pass_transition_refl: "list_all2 pass_transition xs xs"
  by (simp add: list_all2_refl pass_transition_def)

lemma syncPendingSubmissions_transitions:
  assumes "distinct (map s_id (report_submissions (reports_db s)))"
  shows "list_all2 pass_transition (report_submissions (reports_db s))
           (report_submissions (reports_db (snd (syncPendingSubmissions ev s))))"
proof (cases "ensureInitialized s")
  case (Inl e)
  then show ?thesis
    by (simp add: syncPendingSubmissions_def getSubmissionsByUserId_def pass_transition_refl)
next
  case (Inr s')
  have db: "reports_db s' = reports_db s"
    using Inr by (rule ensureInitialized_database)
  show ?thesis
  proof (cases "db_handle s'")
    case False
    with Inr db show ?thesis
      by (simp add: syncPendingSubmissions_def getSubmissionsByUserId_def pass_transition_refl)
  next
    case True
    let ?xs = "filter (\<lambda>x. s_syncStatus x = Pending) (order_desc s_lastModified
        (filter (\<lambda>x. s_userId x = ''current_user_id'') (report_submissions (reports_db s'))))"
    have eq: "syncPendingSubmissions ev s = syncSubmissions ev 0 ?xs s'"
      using Inr True by (simp add: syncPendingSubmissions_def getSubmissionsByUserId_def)
    have dist: "distinct (map s_id (report_submissions (reports_db s')))"
      using assms db by simp
    have "list_all2 pass_transition (report_submissions (reports_db s'))
           (report_submissions (reports_db (snd (syncSubmissions ev 0 ?xs s'))))"
    proof (rule syncSubmissions_transitions)
      show "distinct (map s_id ?xs)"
        using dist by (rule distinct_ids_query)
    next
      fix x r
      assume x: "x \<in> set ?xs" and r: "r \<in> set (report_submissions (reports_db s'))"
        and same: "s_id r = s_id x"
      from x have "x \<in> set (report_submissions (reports_db s'))" and p: "s_syncStatus x = Pending"
        by (simp_all add: order_desc_def)
      with dist r same have "r = x"
        by (metis distinct_ids_same)
      with p show "s_syncStatus r = Pending" by simp
    qed
    then show ?thesis
      unfolding eq db .
  qed
qed

lemma startSync_pass_transitions:
  assumes "distinct (map s_id (report_submissions (reports_db (databaseService a))))"
  shows "list_all2 pass_transition (report_submissions (reports_db (databaseService a)))
           (report_submissions (reports_db (databaseService (snd (startSync_pass ev a)))))"
proof -
  obtain r1 b where p: "processSyncQueue ev (databaseService a) = (r1, b)"
    by force
  obtain r2 c where q: "syncPendingSubmissions ev b = (r2, c)"
    by force
  have b: "report_submissions (reports_db b)
      = report_submissions (reports_db (databaseService a))"
    using processSyncQueue_submissions [of ev "databaseService a"] p by simp
  have "list_all2 pass_transition (report_submissions (reports_db b))
           (report_submissions (reports_db (snd (syncPendingSubmissions ev b))))"
    by (rule syncPendingSubmissions_transitions) (simp add: b assms)
  then have c: "list_all2 pass_transition (report_submissions (reports_db (databaseService a)))
           (report_submissions (reports_db c))"
    by (simp add: q b)
  show ?thesis
    by (cases r1; cases r2) (simp_all add: startSync_pass_def p q b c pass_transition_refl)
qed

lemma processItems_frame:
  "\<exists>q. reports_db (snd (processItems ev n items s)) = (reports_db s)\<lparr>sync_queue := q\<rparr>"
proof (cases "db_handle s")
  case False
  then show ?thesis
    by (intro exI [of _ "sync_queue (reports_db s)"]) (simp add: processItems_closed)
next
  case True
  then show ?thesis
  proof (induction items arbitrary: n s)
    case Nil
    show ?case by (intro exI [of _ "sync_queue (reports_db s)"]) simp
  next
    case (Cons item items)
    let ?s1 = "s\<lparr>reports_db := (reports_db s)\<lparr>sync_queue :=
          (if queue_random ev n
           then filter (\<lambda>q. q_id q \<noteq> q_id item) (sync_queue (reports_db s))
           else map (\<lambda>q. if q_id q = q_id item
                     then q\<lparr>q_attempts := q_attempts item + 1,
                            q_lastAttempt := Some (queue_date ev n),
                            q_error := Some ''Network error''\<rparr>
                     else q) (sync_queue (reports_db s)))\<rparr>\<rparr>"
    have "db_handle ?s1" using Cons.prems by simp
    from Cons.IH [OF this, of "Suc n"] obtain q where
      "reports_db (snd (processItems ev (Suc n) items ?s1)) = (reports_db ?s1)\<lparr>sync_queue := q\<rparr>"
      by blast
    then have "reports_db (snd (processItems ev n (item # items) s))
        = (reports_db s)\<lparr>sync_queue := q\<rparr>"
      unfolding processItems_step [OF Cons.prems] by simp
    then show ?case by blast
  qed
qed

lemma processSyncQueue_frame:
  "\<exists>q. reports_db (snd (processSyncQueue ev s)) = (reports_db s)\<lparr>sync_queue := q\<rparr>"
proof (cases "getPendingSyncItems s")
  case (Inl e)
  then show ?thesis
    by (intro exI [of _ "sync_queue (reports_db s)"]) (simp add: processSyncQueue_def)
next
  case (Inr items)
  with processItems_frame [of ev 0 items s] show ?thesis
    by (simp add: processSyncQueue_def)
qed

lemma same_but_sync_refl: "list_all2 same_but_sync xs xs"
  by (simp add: list_all2_refl same_but_sync_def)

lemma syncPendingSubmissions_frame:
  "\<exists>ys. reports_db (snd (syncPendingSubmissions ev s)) = (reports_db s)\<lparr>report_submissions := ys\<rparr>
        \<and> list_all2 same_but_sync (report_submissions (reports_db s)) ys"
proof (cases "getSubmissionsByUserId ''current_user_id'' s")
  case (Inl e)
  then show ?thesis
    by (intro exI [of _ "report_submissions (reports_db s)"])
      (simp add: syncPendingSubmissions_def same_but_sync_refl)
next
  case (Inr r)
  obtain xs s' where r: "r = (xs, s')" by force
  have db: "reports_db s' = reports_db s"
    using Inr [unfolded r]
    by (auto simp add: getSubmissionsByUserId_def dest: ensureInitialized_database
        split: sum.splits if_splits)
  from syncSubmissions_frame [of ev 0 "filter (\<lambda>x. s_syncStatus x = Pending) xs" s']
  obtain ys where
    "snd (syncSubmissions ev 0 (filter (\<lambda>x. s_syncStatus x = Pending) xs) s')
       = s'\<lparr>reports_db := (reports_db s')\<lparr>report_submissions := ys\<rparr>\<rparr>"
    and "list_all2 same_but_sync (report_submissions (reports_db s')) ys"
    by blast
  then have "reports_db (snd (syncPendingSubmissions ev s))
        = (reports_db s)\<lparr>report_submissions := ys\<rparr>
      \<and> list_all2 same_but_sync (report_submissions (reports_db s)) ys"
    using Inr [unfolded r] by (simp add: syncPendingSubmissions_def db)
  then show ?thesis by blast
qed

lemma startSync_pass_frame:
  "\<exists>q ys. reports_db (databaseService (snd (startSync_pass ev a)))
             = (reports_db (databaseService a))\<lparr>sync_queue := q, report_submissions := ys\<rparr>
         \<and> list_all2 same_but_sync (report_submissions (reports_db (databaseService a))) ys"
proof -
  obtain r1 b where p: "processSyncQueue ev (databaseService a) = (r1, b)"
    by force
  obtain r2 c where s: "syncPendingSubmissions ev b = (r2, c)"
    by force
  from processSyncQueue_frame [of ev "databaseService a"] p obtain q
    where b: "reports_db b = (reports_db (databaseService a))\<lparr>sync_queue := q\<rparr>"
    by auto
  from syncPendingSubmissions_frame [of ev b] s obtain ys
    where c: "reports_db c = (reports_db b)\<lparr>report_submissions := ys\<rparr>"
      and rel: "list_all2 same_but_sync (report_submissions (reports_db b)) ys"
    by auto
  have one: "reports_db b = (reports_db (databaseService a))
      \<lparr>sync_queue := q, report_submissions := report_submissions (reports_db (databaseService a))\<rparr>"
    unfolding b by simp
  have two: "reports_db c = (reports_db (databaseService a))
      \<lparr>sync_queue := q, report_submissions := ys\<rparr>"
    unfolding c b by simp
  have rel': "list_all2 same_but_sync (report_submissions (reports_db (databaseService a))) ys"
    using rel unfolding b by simp
  show ?thesis
  proof (cases r1)
    case (Some e)
    then have "databaseService (snd (startSync_pass ev a)) = b"
      by (simp add: startSync_pass_def p)
    with one same_but_sync_refl show ?thesis by blast
  next
    case None
    then have "databaseService (snd (startSync_pass ev a)) = c"
      by (cases r2) (simp_all add: startSync_pass_def p s)
    with two rel' show ?thesis by blast
  qed
qed

section \<open>Recording an attempt\<close>

text \<open>
  C8. Let the database be open, the ids of the queue distinct (they are its primary key)
  and \<open>items\<close> the entries that \<^verbatim>\<open>processSyncQueue\<close> fetches. The pass throws nothing, and
  for the k-th of them: if its request resolves, no entry with its id is in the queue after
  the pass; if its request rejects with \<open>e\<close>, the entry is in the queue after the pass with
  its attempts raised by one, \<^verbatim>\<open>lastAttempt\<close> set to the time of the recording and the
  message of \<open>e\<close> as its error.
\<close>

theorem processSyncQueue_records_attempts:
  assumes "db_handle s" and "distinct (map q_id (sync_queue (reports_db s)))"
    and "getPendingSyncItems s = Inr items" and "k < length items"
  shows "fst (processSyncQueue ev s) = None
     \<and> (syncItem (queue_random ev k) (items ! k) = None \<longrightarrow>
          q_id (items ! k) \<notin> set (map q_id (sync_queue (reports_db (snd (processSyncQueue ev s))))))
     \<and> (\<forall>e. syncItem (queue_random ev k) (items ! k) = Some e \<longrightarrow>
          (items ! k)\<lparr>q_attempts := q_attempts (items ! k) + 1,
                       q_lastAttempt := Some (queue_date ev k),
                       q_error := Some (error_message e)\<rparr>
            \<in> set (sync_queue (reports_db (snd (processSyncQueue ev s)))))"
proof -
  have items: "items = order_asc q_createdAt
      (filter (\<lambda>q. q_attempts q < 3) (sync_queue (reports_db s)))"
    using assms(1,3) by (simp add: getPendingSyncItems_def)
  have p: "processSyncQueue ev s = processItems ev 0 items s"
    using assms(3) by (simp add: processSyncQueue_def)
  have dist: "distinct (map q_id items)"
    unfolding items using assms(2) by (rule distinct_ids_query)
  have sub: "set items \<subseteq> set (sync_queue (reports_db s))"
    unfolding items by (auto simp add: order_asc_def)
  have ok: "syncItem (queue_random ev k) (items ! k) = None \<longleftrightarrow> queue_random ev k"
    by (simp add: syncItem_def makeHttpRequest_def)
  have err: "syncItem (queue_random ev k) (items ! k) = Some e
      \<longleftrightarrow> \<not> queue_random ev k \<and> e = Error ''Network error''" for e
    by (auto simp add: syncItem_def makeHttpRequest_def)
  from processItems_item [OF assms(1) dist sub assms(4), of ev 0]
    processItems_open [OF assms(1), of ev 0 items]
  show ?thesis
    unfolding p by (simp add: ok err error_message_def)
qed

theorem processSyncQueue_records_attempts_witness:
  "db_handle (open_service (empty_database\<lparr>sync_queue := sample_queue\<rparr>))
   \<and> distinct (map q_id (sync_queue (reports_db
        (open_service (empty_database\<lparr>sync_queue := sample_queue\<rparr>)))))
   \<and> getPendingSyncItems (open_service (empty_database\<lparr>sync_queue := sample_queue\<rparr>))
       = Inr [queue_entry ''q3'' ''s3'' 2 ''2024-05-02T10:00:00.000Z'',
              queue_entry ''q1'' ''s1'' 0 ''2024-05-03T10:00:00.000Z'']
   \<and> (0::nat) < length [queue_entry ''q3'' ''s3'' 2 ''2024-05-02T10:00:00.000Z'',
              queue_entry ''q1'' ''s1'' 0 ''2024-05-03T10:00:00.000Z'']
   \<and> fst (processSyncQueue (sample_env [] False)
         (open_service (empty_database\<lparr>sync_queue := sample_queue\<rparr>))) = None
   \<and> syncItem (queue_random (sample_env [] False) 0)
         (queue_entry ''q3'' ''s3'' 2 ''2024-05-02T10:00:00.000Z'') = Some (Error ''Network error'')
   \<and> (queue_entry ''q3'' ''s3'' 2 ''2024-05-02T10:00:00.000Z'')
         \<lparr>q_attempts := 3, q_lastAttempt := Some ''2024-05-04T12:00:01.000Z'',
          q_error := Some ''Network error''\<rparr>
       \<in> set (sync_queue (reports_db (snd (processSyncQueue (sample_env [] False)
             (open_service (empty_database\<lparr>sync_queue := sample_queue\<rparr>))))))"
proof -
  have g: "getPendingSyncItems (open_service (empty_database\<lparr>sync_queue := sample_queue\<rparr>))
       = Inr [queue_entry ''q3'' ''s3'' 2 ''2024-05-02T10:00:00.000Z'',
              queue_entry ''q1'' ''s1'' 0 ''2024-05-03T10:00:00.000Z'']"
    by (simp add: getPendingSyncItems_def open_service_def empty_database_def sample_queue_def
      queue_entry_def order_asc_def)
  have d: "db_handle (open_service (empty_database\<lparr>sync_queue := sample_queue\<rparr>))
    \<and> distinct (map q_id (sync_queue (reports_db
        (open_service (empty_database\<lparr>sync_queue := sample_queue\<rparr>)))))"
    by (simp add: open_service_def empty_database_def sample_queue_def queue_entry_def)
  have e: "syncItem (queue_random (sample_env [] False) 0)
         (queue_entry ''q3'' ''s3'' 2 ''2024-05-02T10:00:00.000Z'') = Some (Error ''Network error'')"
    by (simp add: syncItem_def makeHttpRequest_def sample_env_def)
  from processSyncQueue_records_attempts [OF conjunct1 [OF d] conjunct2 [OF d] g,
      of 0 "sample_env [] False"] e
  have "fst (processSyncQueue (sample_env [] False)
         (open_service (empty_database\<lparr>sync_queue := sample_queue\<rparr>))) = None
     \<and> (queue_entry ''q3'' ''s3'' 2 ''2024-05-02T10:00:00.000Z'')
         \<lparr>q_attempts := 3, q_lastAttempt := Some ''2024-05-04T12:00:01.000Z'',
          q_error := Some ''Network error''\<rparr>
       \<in> set (sync_queue (reports_db (snd (processSyncQueue (sample_env [] False)
             (open_service (empty_database\<lparr>sync_queue := sample_queue\<rparr>))))))"
    by (simp add: error_message_def sample_env_def queue_entry_def)
  with g d e show ?thesis by simp
qed

section \<open>The pending submissions of the session's user\<close>

text \<open>
  C3. A sync pass is to push every pending submission of the user of the session and mark
  it synced or error. \<^verbatim>\<open>syncPendingSubmissions\<close> asks for the submissions of the user
  \<^verbatim>\<open>'current_user_id'\<close>, a literal left where the id of the session's user is to come
  (the source marks it as to do). With the sample user signed in, one pending submission
  of hers and its entry in the queue, online and with every request succeeding, the pass
  empties the queue and leaves the submission pending.
\<close>

theorem startSync_leaves_session_submission_pending:
  "auth_user (state sample_session) = Some sample_user
   \<and> s_userId (sample_submission ''s1'' Pending) = u_id sample_user
   \<and> startSync (sample_env [] True)
        (sample_app True (empty_database\<lparr>report_submissions := [sample_submission ''s1'' Pending],
           sync_queue := [queue_entry ''q1'' ''s1'' 0 ''2024-05-03T10:00:00.000Z'']\<rparr>))
      = (None,
         \<lparr>databaseService = open_service
            (empty_database\<lparr>report_submissions := [sample_submission ''s1'' Pending],
               sync_queue := []\<rparr>),
          syncService = \<lparr>isOnline = True, syncInProgress = False, syncInterval = True\<rparr>\<rparr>)"
  by (simp add: startSync_def startSync_begin_def startSync_pass_def processSyncQueue_def
      syncPendingSubmissions_def getSubmissionsByUserId_def ensureInitialized_def
      isInitialized_def getPendingSyncItems_def sample_app_def open_service_def
      scheduleSyncInterval_def stopSync_def syncItem_def makeHttpRequest_def
      removeSyncQueueItem_def queue_entry_def sample_env_def
      empty_database_def sample_submission_def sample_session_def sample_user_def
      order_asc_def order_desc_def)

section \<open>Saving and the transport\<close>

text \<open>
  Let the database be open and the generated ids new (so that the local writes succeed).
  Then \<^verbatim>\<open>saveSubmissionOffline\<close> returns the id of the new submission and
  \<^verbatim>\<open>updateSubmissionOffline\<close> returns normally, online or not: the pass they may start is
  not awaited. That pass, whatever its requests do, rejects with nothing, and all it
  changes in the database is the queue and, of the submissions, their sync status and time
  of modification.
\<close>

lemma transport_failure_not_raised:
  assumes "db_handle (databaseService a)"
    and "generateId ev 0 \<notin> set (map s_id (report_submissions (reports_db (databaseService a))))"
    and "generateId ev 1 \<notin> set (map q_id (sync_queue (reports_db (databaseService a))))"
    and "generateId evu 0 \<notin> set (map q_id (sync_queue (reports_db (databaseService a))))"
  shows "fst (saveSubmissionOffline ev reportId userId body st a) = Inr (generateId ev 0)
     \<and> fst (updateSubmissionOffline evu i body stu a) = None
     \<and> fst (startSync_pass evp (snd (saveSubmissionOffline ev reportId userId body st a))) = None
     \<and> fst (startSync_pass evp (snd (updateSubmissionOffline evu i body stu a))) = None
     \<and> (\<exists>q ys.
          reports_db (databaseService (snd (startSync_pass evp
              (snd (saveSubmissionOffline ev reportId userId body st a)))))
            = (reports_db (databaseService (snd (saveSubmissionOffline ev reportId userId body st a))))
                \<lparr>sync_queue := q, report_submissions := ys\<rparr>
          \<and> list_all2 same_but_sync
               (report_submissions (reports_db (databaseService
                  (snd (saveSubmissionOffline ev reportId userId body st a))))) ys)"
  using assms startSync_pass_frame
    [of evp "snd (saveSubmissionOffline ev reportId userId body st a)"]
  by (simp add: saveSubmissionOffline_result updateSubmissionOffline_result
      startSync_pass_resolves)

text \<open>The sample submission saved while every request fails, pass after pass.\<close>

lemma saved_app_state:
  "saveSubmissionOffline (sample_env [''s1'', ''q1''] False) ''r1'' ''lvo2k3f1x9''
      (JObject [(''f1'', JString ''hello'')]) FillSubmitted (sample_app True empty_database)
    = (Inr ''s1'',
       \<lparr>databaseService = open_service (empty_database\<lparr>report_submissions := [saved_submission],
          sync_queue := [saved_entry 0 None None]\<rparr>),
        syncService = \<lparr>isOnline = True, syncInProgress = True, syncInterval = False\<rparr>\<rparr>)"
  by (simp add: saveSubmissionOffline_def createSubmission_def addToSyncQueue_sync_def
      addToSyncQueue_def Let_def startSync_unawaited_def startSync_begin_def isInitialized_def
      sample_app_def open_service_def saved_submission_def saved_entry_def
      empty_database_def sample_env_def fill_def status_string_def or_null_def)

lemma failing_pass:
  "n < 3 \<Longrightarrow>
   startSync_pass (sample_env [] False)
     \<lparr>databaseService = open_service (empty_database\<lparr>report_submissions := [saved_submission],
          sync_queue := [saved_entry n attempted err]\<rparr>),
      syncService = \<lparr>isOnline = True, syncInProgress = True, syncInterval = t\<rparr>\<rparr>
   = (None,
     \<lparr>databaseService = open_service (empty_database\<lparr>report_submissions := [saved_submission],
          sync_queue := [saved_entry (n + 1) (Some ''2024-05-04T12:00:01.000Z'')
             (Some ''Network error'')]\<rparr>),
      syncService = \<lparr>isOnline = True, syncInProgress = False, syncInterval = True\<rparr>\<rparr>)"
  by (simp add: startSync_pass_def processSyncQueue_def getPendingSyncItems_def order_asc_def
      syncItem_def makeHttpRequest_def updateSyncQueueItem_def error_message_def or_null_def
      syncPendingSubmissions_def getSubmissionsByUserId_def ensureInitialized_def
      isInitialized_def order_desc_def sample_env_def open_service_def empty_database_def
      saved_submission_def saved_entry_def scheduleSyncInterval_def stopSync_def)

lemma failing_forcSync:
  "n < 3 \<Longrightarrow>
   forcSync (sample_env [] False)
     \<lparr>databaseService = open_service (empty_database\<lparr>report_submissions := [saved_submission],
          sync_queue := [saved_entry n attempted err]\<rparr>),
      syncService = \<lparr>isOnline = True, syncInProgress = False, syncInterval = t\<rparr>\<rparr>
   = (None,
     \<lparr>databaseService = open_service (empty_database\<lparr>report_submissions := [saved_submission],
          sync_queue := [saved_entry (n + 1) (Some ''2024-05-04T12:00:01.000Z'')
             (Some ''Network error'')]\<rparr>),
      syncService = \<lparr>isOnline = True, syncInProgress = False, syncInterval = True\<rparr>\<rparr>)"
  using failing_pass [of n attempted err t]
  by (simp add: forcSync_def startSync_def startSync_begin_def isInitialized_def open_service_def)

lemma failed_once_state:
  "failed_once =
     \<lparr>databaseService = open_service (empty_database\<lparr>report_submissions := [saved_submission],
          sync_queue := [saved_entry 1 (Some ''2024-05-04T12:00:01.000Z'')
             (Some ''Network error'')]\<rparr>),
      syncService = \<lparr>isOnline = True, syncInProgress = False, syncInterval = True\<rparr>\<rparr>"
  unfolding failed_once_def saved_app_def saved_app_state using failing_pass [of 0 None None False]
  by simp

lemma failed_thrice_state:
  "failed_thrice =
     \<lparr>databaseService = open_service (empty_database\<lparr>report_submissions := [saved_submission],
          sync_queue := [saved_entry 3 (Some ''2024-05-04T12:00:01.000Z'')
             (Some ''Network error'')]\<rparr>),
      syncService = \<lparr>isOnline = True, syncInProgress = False, syncInterval = True\<rparr>\<rparr>"
  unfolding failed_thrice_def failed_once_state
  using failing_forcSync [of 1 "Some ''2024-05-04T12:00:01.000Z''" "Some ''Network error''" True]
    failing_forcSync [of 2 "Some ''2024-05-04T12:00:01.000Z''" "Some ''Network error''" True]
  by simp

text \<open>
  C2. A failure of the transport is not to be raised to the caller of
  \<^verbatim>\<open>saveSubmissionOffline\<close>, and is to show in the sync status of the submission and in the
  number of failed items. With every request failing, the call for the sample user returns
  the id of the submission, and the pass it started rejects with nothing and records one
  attempt and the error on the queue entry: \<^verbatim>\<open>getSyncStats\<close> then counts one pending item and
  no failed one. After two calls of \<^verbatim>\<open>forcSync\<close> more the entry has its 3 attempts and the
  error, and \<^verbatim>\<open>getSyncStats\<close> counts no pending item and no failed one, and the submission
  is still pending: \<^verbatim>\<open>getSyncStats\<close> looks for the failed items among the pending ones,
  which have less than 3 attempts, and the pass asks for the submissions of
  \<^verbatim>\<open>'current_user_id'\<close>.
\<close>

theorem transport_failure_not_observable:
  "fst (saveSubmissionOffline (sample_env [''s1'', ''q1''] False) ''r1'' ''lvo2k3f1x9''
      (JObject [(''f1'', JString ''hello'')]) FillSubmitted (sample_app True empty_database))
     = Inr ''s1''
   \<and> fst (startSync_pass (sample_env [] False) saved_app) = None
   \<and> map (\<lambda>q. (q_id q, q_attempts q, q_error q))
        (sync_queue (reports_db (databaseService failed_once)))
       = [(''q1'', 1, Some ''Network error'')]
   \<and> getSyncStats failed_once = Inr (1, 0)
   \<and> map (\<lambda>q. (q_id q, q_attempts q, q_error q))
        (sync_queue (reports_db (databaseService failed_thrice)))
       = [(''q1'', 3, Some ''Network error'')]
   \<and> getSyncStats failed_thrice = Inr (0, 0)
   \<and> map (\<lambda>x. (s_id x, s_userId x, s_syncStatus x))
        (report_submissions (reports_db (databaseService failed_thrice)))
       = [(''s1'', ''lvo2k3f1x9'', Pending)]"
proof -
  have pass: "fst (startSync_pass (sample_env [] False) saved_app) = None"
    unfolding saved_app_def saved_app_state using failing_pass [of 0 None None False] by simp
  show ?thesis
    unfolding failed_once_state failed_thrice_state saved_app_state pass
    by (simp add: getSyncStats_def getPendingSyncItems_def order_asc_def
        open_service_def empty_database_def saved_entry_def saved_submission_def)
qed

text \<open>
  C6. Let the database be open and the generated ids new: no submission and no queue
  entry refers to the id of the submission, no queue entry has the id of the entry. Then
  \<^verbatim>\<open>saveSubmissionOffline\<close> returns the id of the submission; looked up right away as
  \<^verbatim>\<open>autoSave\<close> does, the submission is found with the data given and sync status pending;
  and among the pending items of the queue exactly one refers to it, a \<^verbatim>\<open>create\<close> of a
  submission with 0 attempts.
\<close>

theorem saveSubmissionOffline_pending_and_queued:
  assumes "db_handle (databaseService a)"
    and "generateId ev 0 \<notin> set (map s_id (report_submissions (reports_db (databaseService a))))"
    and "generateId ev 0 \<notin> set (map q_entityId (sync_queue (reports_db (databaseService a))))"
    and "generateId ev 1 \<notin> set (map q_id (sync_queue (reports_db (databaseService a))))"
  shows "\<exists>a' x q. saveSubmissionOffline ev reportId userId body st a = (Inr (generateId ev 0), a')
     \<and> findSubmission userId (generateId ev 0) (databaseService a') = Inr (Some x)
     \<and> s_id x = generateId ev 0 \<and> s_syncStatus x = Pending
     \<and> s_reportId x = reportId \<and> s_userId x = userId \<and> s_data x = body
     \<and> map_sum id (filter (\<lambda>q. q_entityId q = generateId ev 0))
          (getPendingSyncItems (databaseService a')) = Inr [q]
     \<and> q_type q = TSubmission \<and> q_action q = Create \<and> q_entityId q = generateId ev 0
     \<and> q_attempts q = 0"
proof -
  let ?s = "databaseService a"
  let ?a' = "snd (saveSubmissionOffline ev reportId userId body st a)"
  let ?x = "\<lparr>s_reportId = reportId, s_userId = userId, s_data = body, s_status = fill st,
            s_submittedAt = (if st = FillSubmitted then or_null (Some (date ev 0)) else None),
            s_lastModified = date ev 2, s_version = 1, s_isOffline = True,
            s_syncStatus = Pending, s_id = generateId ev 0\<rparr>"
  let ?q = "\<lparr>q_type = TSubmission, q_action = Create, q_entityId = generateId ev 0,
            q_data = JObject ([(''reportId'', JString reportId), (''userId'', JString userId),
                     (''data'', body), (''status'', JString (status_string (fill st)))]
                     @ (if st = FillSubmitted then [(''submittedAt'', JString (date ev 3))] else [])),
            q_attempts = 0, q_lastAttempt = None, q_error = None, q_createdAt = date ev 5,
            q_id = generateId ev 1\<rparr>"
  have r: "saveSubmissionOffline ev reportId userId body st a = (Inr (generateId ev 0), ?a')"
    using saveSubmissionOffline_result [OF assms(1,2,4), of reportId userId body st]
    by (simp add: prod_eq_iff)
  have d: "databaseService ?a' = ?s\<lparr>reports_db := (reports_db ?s)\<lparr>
        report_submissions := report_submissions (reports_db ?s) @ [?x],
        sync_queue := sync_queue (reports_db ?s) @ [?q]\<rparr>\<rparr>"
    using saveSubmissionOffline_database [OF assms(1,2,4)] .
  have fresh: "\<And>z. z \<in> set (report_submissions (reports_db ?s)) \<Longrightarrow> s_id z \<noteq> generateId ev 0"
    using assms(2) by (rule not_in_map_ids)
  let ?ys = "order_desc s_lastModified
      (filter (\<lambda>x. s_userId x = userId) (report_submissions (reports_db ?s) @ [?x]))"
  have ys: "set ?ys = insert ?x {z \<in> set (report_submissions (reports_db ?s)). s_userId z = userId}"
    by (auto simp add: order_desc_def)
  have "find (\<lambda>x. s_id x = generateId ev 0) ?ys = Some ?x"
  proof (rule find_unique)
    show "?x \<in> set ?ys" unfolding ys by blast
    show "s_id ?x = generateId ev 0" by simp
    fix z assume "z \<in> set ?ys" "s_id z = generateId ev 0"
    then show "z = ?x" unfolding ys using fresh by blast
  qed
  then have f: "findSubmission userId (generateId ev 0) (databaseService ?a') = Inr (Some ?x)"
    using assms(1)
    by (simp add: findSubmission_def getSubmissionsByUserId_def ensureInitialized_def
        isInitialized_def d)
  have no_entry: "filter (\<lambda>q. q_attempts q < 3 \<and> q_entityId q = generateId ev 0)
      (sync_queue (reports_db ?s)) = []"
    using assms(3) unfolding filter_empty_conv by (metis imageI list.set_map)
  have "filter (\<lambda>q. q_entityId q = generateId ev 0)
          (order_asc q_createdAt (filter (\<lambda>q. q_attempts q < 3) (sync_queue (reports_db ?s) @ [?q])))
        = [?q]"
    by (simp add: order_asc_def filter_sort no_entry)
  then have g: "map_sum id (filter (\<lambda>q. q_entityId q = generateId ev 0))
          (getPendingSyncItems (databaseService ?a')) = Inr [?q]"
    using assms(1)
    by (simp add: getPendingSyncItems_def d)
  show ?thesis
    using r f g by (intro exI [of _ ?a'] exI [of _ ?x] exI [of _ ?q]) simp
qed

theorem saveSubmissionOffline_pending_and_queued_witness:
  "db_handle (databaseService (sample_app False empty_database))
   \<and> generateId (sample_env [''s1'', ''q1''] True) 0 \<notin> set (map s_id
       (report_submissions (reports_db (databaseService (sample_app False empty_database)))))
   \<and> generateId (sample_env [''s1'', ''q1''] True) 0 \<notin> set (map q_entityId
       (sync_queue (reports_db (databaseService (sample_app False empty_database)))))
   \<and> generateId (sample_env [''s1'', ''q1''] True) 1 \<notin> set (map q_id
       (sync_queue (reports_db (databaseService (sample_app False empty_database)))))
   \<and> (\<exists>a' x q. saveSubmissionOffline (sample_env [''s1'', ''q1''] True) ''r1'' ''lvo2k3f1x9''
           (JObject [(''f1'', JString ''hello'')]) FillDraft (sample_app False empty_database)
         = (Inr ''s1'', a')
       \<and> findSubmission ''lvo2k3f1x9'' ''s1'' (databaseService a') = Inr (Some x)
       \<and> s_id x = ''s1'' \<and> s_syncStatus x = Pending
       \<and> s_data x = JObject [(''f1'', JString ''hello'')]
       \<and> map_sum id (filter (\<lambda>q. q_entityId q = ''s1''))
            (getPendingSyncItems (databaseService a')) = Inr [q]
       \<and> q_action q = Create \<and> q_entityId q = ''s1'' \<and> q_attempts q = 0)"
proof -
  have h: "db_handle (databaseService (sample_app False empty_database))"
    "generateId (sample_env [''s1'', ''q1''] True) 0 \<notin> set (map s_id
       (report_submissions (reports_db (databaseService (sample_app False empty_database)))))"
    "generateId (sample_env [''s1'', ''q1''] True) 0 \<notin> set (map q_entityId
       (sync_queue (reports_db (databaseService (sample_app False empty_database)))))"
    "generateId (sample_env [''s1'', ''q1''] True) 1 \<notin> set (map q_id
       (sync_queue (reports_db (databaseService (sample_app False empty_database)))))"
    by (simp_all add: sample_app_def open_service_def empty_database_def)
  have i: "generateId (sample_env [''s1'', ''q1''] True) 0 = ''s1''"
    by (simp add: sample_env_def)
  from saveSubmissionOffline_pending_and_queued [OF h, of "''r1''" "''lvo2k3f1x9''"
      "JObject [(''f1'', JString ''hello'')]" FillDraft]
  obtain a' x q where
    "saveSubmissionOffline (sample_env [''s1'', ''q1''] True) ''r1'' ''lvo2k3f1x9''
           (JObject [(''f1'', JString ''hello'')]) FillDraft (sample_app False empty_database)
         = (Inr ''s1'', a')"
    "findSubmission ''lvo2k3f1x9'' ''s1'' (databaseService a') = Inr (Some x)"
    "s_id x = ''s1''" "s_syncStatus x = Pending" "s_data x = JObject [(''f1'', JString ''hello'')]"
    "map_sum id (filter (\<lambda>q. q_entityId q = ''s1''))
            (getPendingSyncItems (databaseService a')) = Inr [q]"
    "q_action q = Create" "q_entityId q = ''s1''" "q_attempts q = 0"
    unfolding i by blast
  with h show ?thesis by blast
qed

section \<open>What an operation does to the submissions\<close>

text \<open>Of the calls, only the two offline methods write to the table of the submissions, and
  the deletions take rows away.\<close>

lemma login_submissions:
  "report_submissions (reports_db (snd (snd (login ev cr (c, s)))))
     = report_submissions (reports_db s)"
  by (simp add: login_def getUserByEmail_def createUser_def getUserById_def Let_def
      split: option.splits)

lemma register_submissions:
  "report_submissions (reports_db (snd (snd (register ev d (c, s)))))
     = report_submissions (reports_db s)"
  by (simp add: register_def getUserByEmail_def createUser_def getUserById_def Let_def
      split: option.splits)

lemma query_submissions:
  "report_submissions (reports_db (after_result s (getProjectsByUserId i s)))
     = report_submissions (reports_db s)"
  "report_submissions (reports_db (after_result s (getProjectById i s)))
     = report_submissions (reports_db s)"
  "report_submissions (reports_db (after_result s (getAllReports s)))
     = report_submissions (reports_db s)"
  "report_submissions (reports_db (after_result s (getReportById i s)))
     = report_submissions (reports_db s)"
  "report_submissions (reports_db (after_result s (getSubmissionsByUserId i s)))
     = report_submissions (reports_db s)"
  by (auto simp add: after_result_def getProjectsByUserId_def getProjectById_def
      getAllReports_def getReportById_def getSubmissionsByUserId_def
      dest: ensureInitialized_database split: sum.splits)

lemma write_submissions:
  "report_submissions (reports_db (after s (init s))) = report_submissions (reports_db s)"
  "report_submissions (reports_db (after_result s (createProject newId now p s)))
     = report_submissions (reports_db s)"
  "report_submissions (reports_db (after_result s (createReport newId now r s)))
     = report_submissions (reports_db s)"
  "report_submissions (reports_db (after s (updateReport now i patch s)))
     = report_submissions (reports_db s)"
  by (auto simp add: after_def after_result_def init_def createProject_def createReport_def
      updateReport_def dest: ensureInitialized_database split: sum.splits option.splits)

lemma delete_submissions:
  "set (report_submissions (reports_db (after s (deleteReport i s))))
     \<subseteq> set (report_submissions (reports_db s))"
  "set (report_submissions (reports_db (after s (clearAllData s))))
     \<subseteq> set (report_submissions (reports_db s))"
  by (auto simp add: after_def deleteReport_def clearAllData_def
      dest: ensureInitialized_database split: sum.splits)

lemma startSync_begin_database: "databaseService (snd (startSync_begin a)) = databaseService a"
  by (simp add: startSync_begin_def)

lemma listener_submissions:
  "databaseService (networkListener connected a) = databaseService a"
  "databaseService (intervalCallback a) = databaseService a"
  by (simp_all add: networkListener_def intervalCallback_def startSync_unawaited_database Let_def)

lemma clearFailedSyncItems_submissions:
  "report_submissions (reports_db (databaseService (snd (clearFailedSyncItems a))))
     = report_submissions (reports_db (databaseService a))"
proof (cases "db_handle (databaseService a)")
  case True
  then show ?thesis by (simp add: clearFailedSyncItems_removes_nothing)
next
  case False
  then show ?thesis by (simp add: clearFailedSyncItems_def getPendingSyncItems_def)
qed

lemma addToSyncQueue_sync_submissions:
  "report_submissions (reports_db (databaseService
      (snd (addToSyncQueue_sync newId createdAt now ty act entityId body a))))
     = report_submissions (reports_db (databaseService a))"
  by (simp add: addToSyncQueue_sync_def addToSyncQueue_def startSync_unawaited_database Let_def)

lemma snd_save_result:
  "snd (case p of (Some e, a') \<Rightarrow> (Inl e, a') | (None, a') \<Rightarrow> (Inr i, a')) = snd p"
  by (simp split: prod.splits option.splits)

lemma perform_Login_database:
  "databaseService (fst (perform ev (Login cr) ac))
     = snd (snd (login ev cr (snd ac, databaseService (fst ac))))"
  "databaseService (fst (perform ev (Register d) ac))
     = snd (snd (register ev d (snd ac, databaseService (fst ac))))"
  by (simp_all split: prod.splits)

lemma saveSubmissionOffline_submissions:
  "report_submissions (reports_db (databaseService
            (snd (saveSubmissionOffline ev reportId userId body st a))))
         = report_submissions (reports_db (databaseService a))
   \<or> (\<exists>x. report_submissions (reports_db (databaseService
            (snd (saveSubmissionOffline ev reportId userId body st a))))
         = report_submissions (reports_db (databaseService a)) @ [x]
       \<and> s_id x \<notin> set (map s_id (report_submissions (reports_db (databaseService a))))
       \<and> s_syncStatus x = Pending)"
proof (cases "createSubmission (generateId ev 0) (date ev 2)
             \<lparr>s_reportId = reportId, s_userId = userId, s_data = body, s_status = fill st,
              s_submittedAt = (if st = FillSubmitted then Some (date ev 0) else None),
              s_lastModified = date ev 1, s_version = 1, s_isOffline = True,
              s_syncStatus = Pending\<rparr>
             (databaseService a)")
  case (Inl e)
  then show ?thesis by (simp add: saveSubmissionOffline_def)
next
  case (Inr r)
  obtain i s' where r: "r = (i, s')" by force
  from Inr [unfolded r] obtain x where
    x: "report_submissions (reports_db s')
          = report_submissions (reports_db (databaseService a)) @ [x]"
    and fresh: "s_id x \<notin> set (map s_id (report_submissions (reports_db (databaseService a))))"
    and pending: "s_syncStatus x = Pending"
    by (auto simp add: createSubmission_def split: if_splits)
  have "report_submissions (reports_db (databaseService
            (snd (saveSubmissionOffline ev reportId userId body st a))))
      = report_submissions (reports_db s')"
    using Inr [unfolded r]
    by (simp add: saveSubmissionOffline_def snd_save_result addToSyncQueue_sync_submissions)
  with x fresh pending show ?thesis by auto
qed

lemma updateSubmissionOffline_submissions:
  "report_submissions (reports_db (databaseService (snd (updateSubmissionOffline ev i body st a))))
     = report_submissions (reports_db (databaseService a))
   \<or> (\<exists>g. report_submissions (reports_db (databaseService
            (snd (updateSubmissionOffline ev i body st a))))
         = map (\<lambda>x. if s_id x = i then g x else x)
             (report_submissions (reports_db (databaseService a)))
         \<and> (\<forall>x. s_id (g x) = s_id x \<and> s_syncStatus (g x) = Pending))"
proof (cases "db_handle (databaseService a)")
  case False
  then show ?thesis by (simp add: updateSubmissionOffline_def updateSubmission_def)
next
  case True
  let ?patch = "\<lparr>ps_id = None, ps_reportId = None, ps_userId = None, ps_data = Some body,
              ps_status = map_option fill st,
              ps_submittedAt = (if st = Some FillSubmitted then Some (date ev 0) else None),
              ps_lastModified = None, ps_version = None, ps_isOffline = None,
              ps_syncStatus = Some Pending\<rparr>"
  let ?g = "submission_set ?patch (date ev 1)"
  have "report_submissions (reports_db (databaseService
            (snd (updateSubmissionOffline ev i body st a))))
         = map (\<lambda>x. if s_id x = i then ?g x else x)
             (report_submissions (reports_db (databaseService a)))"
    using True
    by (simp add: updateSubmissionOffline_def updateSubmission_def
        addToSyncQueue_sync_submissions)
  moreover have "\<forall>x. s_id (?g x) = s_id x \<and> s_syncStatus (?g x) = Pending"
    by (simp add: submission_set_def)
  ultimately show ?thesis by blast
qed


lemma saveSubmissionOffline_begin_submissions:
  "report_submissions (reports_db (databaseService
            (snd (saveSubmissionOffline_begin ev reportId userId body st a))))
         = report_submissions (reports_db (databaseService a))
   \<or> (\<exists>x. report_submissions (reports_db (databaseService
            (snd (saveSubmissionOffline_begin ev reportId userId body st a))))
         = report_submissions (reports_db (databaseService a)) @ [x]
       \<and> s_id x \<notin> set (map s_id (report_submissions (reports_db (databaseService a))))
       \<and> s_syncStatus x = Pending)"
  by (auto simp add: saveSubmissionOffline_begin_def createSubmission_def)

lemma saveSubmissionOffline_begin_database:
  "report_submissions (reports_db (databaseService
      (snd (saveSubmissionOffline ev reportId userId body st a))))
   = report_submissions (reports_db (databaseService
      (snd (saveSubmissionOffline_begin ev reportId userId body st a))))"
  by (simp add: saveSubmissionOffline_def saveSubmissionOffline_begin_def snd_save_result
      addToSyncQueue_sync_submissions split: sum.splits)

lemma updateSubmissionOffline_begin_database:
  "report_submissions (reports_db (databaseService
      (snd (updateSubmissionOffline ev i body st a))))
   = report_submissions (reports_db (databaseService
      (snd (updateSubmissionOffline_begin ev i body st a))))"
  by (simp add: updateSubmissionOffline_def updateSubmissionOffline_begin_def
      addToSyncQueue_sync_submissions split: sum.splits)

lemma updateSubmissionOffline_begin_submissions:
  "report_submissions (reports_db (databaseService
      (snd (updateSubmissionOffline_begin ev i body st a))))
     = report_submissions (reports_db (databaseService a))
   \<or> (\<exists>g. report_submissions (reports_db (databaseService
            (snd (updateSubmissionOffline_begin ev i body st a))))
         = map (\<lambda>x. if s_id x = i then g x else x)
             (report_submissions (reports_db (databaseService a)))
         \<and> (\<forall>x. s_id (g x) = s_id x \<and> s_syncStatus (g x) = Pending))"
  using updateSubmissionOffline_submissions [of ev i body st a]
  unfolding updateSubmissionOffline_begin_database .

lemma addToSyncQueue_submissions:
  "report_submissions (reports_db (after_result s (addToSyncQueue newId now item s)))
     = report_submissions (reports_db s)"
  by (simp add: after_result_def addToSyncQueue_def)

text \<open>A row of the table after a call is a row from before the call with the same sync
  status, or one that the call has edited and left pending, or a new row, which is
  pending.\<close>

lemma perform_rows:
  assumes "y \<in> set (submissions_of (perform ev op ac))"
  shows "(\<exists>x\<in>set (submissions_of ac). s_id x = s_id y
           \<and> (s_syncStatus y = s_syncStatus x \<or> s_syncStatus y = Pending \<and> edits op (s_id x)))
       \<or> (s_id y \<notin> set (map s_id (submissions_of ac)) \<and> s_syncStatus y = Pending)"
proof -
  have kept: ?thesis if "set (submissions_of (perform ev op ac)) \<subseteq> set (submissions_of ac)"
    using that assms by (intro disjI1 bexI [of _ y]) auto
  have appended: ?thesis
    if "submissions_of (perform ev op ac) = submissions_of ac
        \<or> (\<exists>x. submissions_of (perform ev op ac) = submissions_of ac @ [x]
              \<and> s_id x \<notin> set (map s_id (submissions_of ac)) \<and> s_syncStatus x = Pending)"
    using that
  proof
    assume "submissions_of (perform ev op ac) = submissions_of ac"
    then show ?thesis by (intro kept) simp
  next
    assume "\<exists>x. submissions_of (perform ev op ac) = submissions_of ac @ [x]
              \<and> s_id x \<notin> set (map s_id (submissions_of ac)) \<and> s_syncStatus x = Pending"
    then obtain x where
      x: "submissions_of (perform ev op ac) = submissions_of ac @ [x]"
      and fresh: "s_id x \<notin> set (map s_id (submissions_of ac))"
      and pending: "s_syncStatus x = Pending"
      by blast
    from assms [unfolded x] have "y = x \<or> y \<in> set (submissions_of ac)" by auto
    then show ?thesis
    proof
      assume "y = x"
      with fresh pending show ?thesis by simp
    next
      assume "y \<in> set (submissions_of ac)"
      then show ?thesis
        by (intro disjI1 bexI [of _ y]) simp_all
    qed
  qed
  have edited: ?thesis
    if i: "edits op i"
      and rows: "submissions_of (perform ev op ac) = submissions_of ac
        \<or> (\<exists>g. submissions_of (perform ev op ac)
                 = map (\<lambda>x. if s_id x = i then g x else x) (submissions_of ac)
              \<and> (\<forall>x. s_id (g x) = s_id x \<and> s_syncStatus (g x) = Pending))" for i
    using rows
  proof
    assume "submissions_of (perform ev op ac) = submissions_of ac"
    then show ?thesis by (intro kept) simp
  next
    assume "\<exists>g. submissions_of (perform ev op ac)
                 = map (\<lambda>x. if s_id x = i then g x else x) (submissions_of ac)
              \<and> (\<forall>x. s_id (g x) = s_id x \<and> s_syncStatus (g x) = Pending)"
    then obtain g where
      m: "submissions_of (perform ev op ac)
            = map (\<lambda>x. if s_id x = i then g x else x) (submissions_of ac)"
      and g: "\<And>x. s_id (g x) = s_id x" "\<And>x. s_syncStatus (g x) = Pending"
      by blast
    from assms [unfolded m] obtain x where
      x: "x \<in> set (submissions_of ac)" and y: "y = (if s_id x = i then g x else x)"
      by auto
    have "s_id x = s_id y
        \<and> (s_syncStatus y = s_syncStatus x \<or> s_syncStatus y = Pending \<and> edits op (s_id x))"
      using g i unfolding y by auto
    with x show ?thesis by blast
  qed
  show ?thesis
  proof (cases op)
    case Init
    show ?thesis by (rule kept) (simp add: Init submissions_of_def on_database_def write_submissions)
  next
    case (Login cr)
    show ?thesis
      by (rule kept)
        (simp add: Login submissions_of_def perform_Login_database login_submissions
          del: perform.simps)
  next
    case (Register d)
    show ?thesis
      by (rule kept)
        (simp add: Register submissions_of_def perform_Login_database register_submissions
          del: perform.simps)
  next
    case Logout
    show ?thesis by (rule kept) (simp add: Logout submissions_of_def)
  next
    case (CreateProject p)
    show ?thesis
      by (rule kept) (simp add: CreateProject submissions_of_def on_database_def write_submissions)
  next
    case (CreateReport r)
    show ?thesis
      by (rule kept) (simp add: CreateReport submissions_of_def on_database_def write_submissions)
  next
    case (UpdateReport i patch)
    show ?thesis
      by (rule kept) (simp add: UpdateReport submissions_of_def on_database_def write_submissions)
  next
    case (DeleteReport i)
    show ?thesis
      by (rule kept) (simp add: DeleteReport submissions_of_def on_database_def delete_submissions)
  next
    case (GetProjectsByUserId i)
    show ?thesis
      by (rule kept)
        (simp add: GetProjectsByUserId submissions_of_def on_database_def query_submissions)
  next
    case (GetProjectById i)
    show ?thesis
      by (rule kept) (simp add: GetProjectById submissions_of_def on_database_def query_submissions)
  next
    case GetAllReports
    show ?thesis
      by (rule kept) (simp add: GetAllReports submissions_of_def on_database_def query_submissions)
  next
    case (GetReportById i)
    show ?thesis
      by (rule kept) (simp add: GetReportById submissions_of_def on_database_def query_submissions)
  next
    case (GetSubmissionsByUserId i)
    show ?thesis
      by (rule kept)
        (simp add: GetSubmissionsByUserId submissions_of_def on_database_def query_submissions)
  next
    case (SaveSubmissionOffline reportId userId body st)
    show ?thesis
      using saveSubmissionOffline_submissions [of ev reportId userId body st "fst ac"]
      by (intro appended) (simp add: SaveSubmissionOffline submissions_of_def)
  next
    case (UpdateSubmissionOffline i body st)
    show ?thesis
      using updateSubmissionOffline_submissions [of ev i body st "fst ac"]
      by (intro edited [of i]) (simp_all add: UpdateSubmissionOffline submissions_of_def edits_def)
  next
    case (SaveSubmissionOffline_begin reportId userId body st)
    show ?thesis
      using saveSubmissionOffline_begin_submissions [of ev reportId userId body st "fst ac"]
      by (intro appended) (simp add: SaveSubmissionOffline_begin submissions_of_def)
  next
    case (UpdateSubmissionOffline_begin i body st)
    show ?thesis
      using updateSubmissionOffline_begin_submissions [of ev i body st "fst ac"]
      by (intro edited [of i])
        (simp_all add: UpdateSubmissionOffline_begin submissions_of_def edits_def)
  next
    case (AddToSyncQueue newId now item)
    show ?thesis
      by (rule kept)
        (simp add: AddToSyncQueue submissions_of_def on_database_def addToSyncQueue_submissions)
  next
    case ForcSync
    show ?thesis
      by (rule kept) (simp add: ForcSync submissions_of_def startSync_unawaited_database)
  next
    case (NetworkEvent connected)
    show ?thesis
      by (rule kept) (simp add: NetworkEvent submissions_of_def listener_submissions)
  next
    case IntervalCallback
    show ?thesis
      by (rule kept) (simp add: IntervalCallback submissions_of_def listener_submissions)
  next
    case PassStep
    show ?thesis by (rule kept) (simp add: PassStep)
  next
    case ClearFailedSyncItems
    show ?thesis
      by (rule kept)
        (simp add: ClearFailedSyncItems submissions_of_def clearFailedSyncItems_submissions)
  next
    case ClearAllData
    show ?thesis
      by (rule kept) (simp add: ClearAllData submissions_of_def on_database_def delete_submissions)
  qed
qed

section \<open>The steps of a pass\<close>

lemma launched_database: "databaseService (snd (launched a a' p)) = databaseService a'"
  by (simp add: launched_def pass_failed_def split: sum.splits)

lemma launched_pass:
  "fst (launched a a' p) = p \<or> fst (launched a a' p) = Idle
     \<or> (\<exists>items. fst (launched a a' p) = InQueue items 0)"
  by (simp add: launched_def split: sum.splits)

lemma run_call_database:
  "op \<noteq> PassStep \<Longrightarrow>
     databaseService (fst (fst (run ev op st))) = databaseService (fst (perform ev op (fst st)))"
  using launched_database [of "fst (fst st)" "fst (perform ev op (fst st))" "snd st"]
  by (cases "launched (fst (fst st)) (fst (perform ev op (fst st))) (snd st)")
    (simp add: run_def)

lemma run_call_pass:
  "op \<noteq> PassStep \<Longrightarrow>
     snd (run ev op st) = snd st \<or> snd (run ev op st) = Idle
       \<or> (\<exists>items. snd (run ev op st) = InQueue items 0)"
  using launched_pass [of "fst (fst st)" "fst (perform ev op (fst st))" "snd st"]
  by (auto simp add: run_def split: prod.splits)

lemma run_step:
  "run ev PassStep st = ((snd (pass_step ev (snd st) (fst (fst st))), snd (fst st)),
     fst (pass_step ev (snd st) (fst (fst st))))"
  by (simp add: run_def split: prod.splits)

lemma one_submission_closed:
  "\<not> db_handle s \<Longrightarrow> syncSubmissions ev n [x] s = (Some not_initialized, s)"
  by (simp add: updateSubmission_def split: option.splits)

lemma one_submission_open:
  assumes "db_handle s"
  shows "syncSubmissions ev n [x] s =
     (None, s\<lparr>reports_db := (reports_db s)\<lparr>report_submissions :=
          map (\<lambda>y. if s_id y = s_id x
                then y\<lparr>s_syncStatus := (if submission_random ev n then Synced else SyncError),
                       s_lastModified := submission_date ev n\<rparr>
                else y) (report_submissions (reports_db s))\<rparr>\<rparr>)"
  unfolding syncSubmissions_step [OF assms] by simp

lemma pass_step_queue_database:
  "databaseService (snd (pass_step ev (InQueue (item # items) n) a))
     = snd (processItems ev n [item] (databaseService a))"
  by (simp add: pass_failed_def split: prod.splits option.splits)

lemma pass_step_queue_pass:
  "fst (pass_step ev (InQueue (item # items) n) a) = Idle
   \<or> fst (pass_step ev (InQueue (item # items) n) a) = InQueue items (Suc n)"
  by (simp split: prod.splits option.splits)

lemma pass_step_fetch_database:
  "reports_db (databaseService (snd (pass_step ev (InQueue [] n) a)))
     = reports_db (databaseService a)"
  by (auto simp add: pass_failed_def getSubmissionsByUserId_def
      dest: ensureInitialized_database split: sum.splits if_splits)

lemma pass_step_fetch_pass:
  "fst (pass_step ev (InQueue [] n) a) = Idle
   \<or> fst (pass_step ev (InQueue [] n) a) = InSubmissions [] 0
   \<or> fst (pass_step ev (InQueue [] n) a)
       = InSubmissions (filter (\<lambda>x. s_syncStatus x = Pending) (order_desc s_lastModified
           (filter (\<lambda>x. s_userId x = ''current_user_id'')
             (report_submissions (reports_db (databaseService a)))))) 0"
  by (auto simp add: getSubmissionsByUserId_def
      dest: ensureInitialized_database split: sum.splits if_splits)

lemma pass_step_submission_database:
  "databaseService (snd (pass_step ev (InSubmissions (x # xs) n) a))
     = snd (syncSubmissions ev n [x] (databaseService a))"
  by (simp add: pass_failed_def split: prod.splits option.splits del: syncSubmissions.simps)

lemma pass_step_submission_pass:
  "fst (pass_step ev (InSubmissions (x # xs) n) a) = Idle
   \<or> fst (pass_step ev (InSubmissions (x # xs) n) a) = InSubmissions xs (Suc n)"
  by (simp split: prod.splits option.splits del: syncSubmissions.simps)

text \<open>What a step of the pass does to the table of the submissions: the step that sends the
  submission \<open>x\<close> sets the sync status and the time of modification of the rows with the id
  of \<open>x\<close>, to synced if the request resolves and to error if not; no other step writes.\<close>

lemma pass_step_submissions:
  "report_submissions (reports_db (databaseService (snd (pass_step ev p a)))) =
     (case p of
        InSubmissions (x # xs) n \<Rightarrow>
          if db_handle (databaseService a)
          then map (\<lambda>y. if s_id y = s_id x
                 then y\<lparr>s_syncStatus := (if submission_random ev n then Synced else SyncError),
                        s_lastModified := submission_date ev n\<rparr>
                 else y) (report_submissions (reports_db (databaseService a)))
          else report_submissions (reports_db (databaseService a))
      | _ \<Rightarrow> report_submissions (reports_db (databaseService a)))"
proof (cases p)
  case Idle
  then show ?thesis by simp
next
  case (InQueue items n)
  show ?thesis
  proof (cases items)
    case Nil
    show ?thesis
      unfolding InQueue Nil pass_step_fetch_database by simp
  next
    case (Cons item rest)
    show ?thesis
      unfolding InQueue Cons pass_step_queue_database processItems_submissions by simp
  qed
next
  case (InSubmissions xs n)
  show ?thesis
  proof (cases xs)
    case Nil
    show ?thesis by (simp add: InSubmissions Nil)
  next
    case (Cons x rest)
    show ?thesis
      unfolding InSubmissions Cons pass_step_submission_database
      by (cases "db_handle (databaseService a)")
        (simp_all add: one_submission_open one_submission_closed del: syncSubmissions.simps)
  qed
qed

lemma request_outcome:
  "syncSubmission random_gt x = None \<longleftrightarrow> random_gt"
  by (simp add: syncSubmission_def makeHttpRequest_def)

section \<open>The primary keys\<close>

text \<open>The insertions refuse an id that is in the table, and no update changes an id: every
  operation keeps the ids distinct, from the empty database on.\<close>

lemma ids_distinct_same_database:
  "reports_db s' = reports_db s \<Longrightarrow> ids_distinct s' = ids_distinct s"
  by (simp add: ids_distinct_def)

lemma submission_ids_after_update:
  "map s_id (map (\<lambda>x. if P x then submission_set patch now x else x) xs) = map s_id xs"
  by (induction xs) (simp_all add: submission_set_def)

lemma ids_distinct_primitives:
  assumes "ids_distinct s"
  shows "init s = Inr s' \<Longrightarrow> ids_distinct s'"
    and "ensureInitialized s = Inr s' \<Longrightarrow> ids_distinct s'"
    and "createUser newId now u s = Inr (i, s') \<Longrightarrow> ids_distinct s'"
    and "createProject newId now p s = Inr (i, s') \<Longrightarrow> ids_distinct s'"
    and "createReport newId now r s = Inr (i, s') \<Longrightarrow> ids_distinct s'"
    and "updateReport now j rpatch s = Inr s' \<Longrightarrow> ids_distinct s'"
    and "deleteReport j s = Inr s' \<Longrightarrow> ids_distinct s'"
    and "createSubmission newId now x s = Inr (i, s') \<Longrightarrow> ids_distinct s'"
    and "updateSubmission now j spatch s = Inr s' \<Longrightarrow> ids_distinct s'"
    and "addToSyncQueue newId now item s = Inr (i, s') \<Longrightarrow> ids_distinct s'"
    and "updateSyncQueueItem now j n err s = Inr s' \<Longrightarrow> ids_distinct s'"
    and "removeSyncQueueItem j s = Inr s' \<Longrightarrow> ids_distinct s'"
    and "clearAllData s = Inr s' \<Longrightarrow> ids_distinct s'"
proof -
  have e: "ensureInitialized s = Inr s' \<Longrightarrow> ids_distinct s'" for s'
    using assms ids_distinct_same_database [OF ensureInitialized_database] by simp
  show "init s = Inr s' \<Longrightarrow> ids_distinct s'"
    using assms by (auto simp add: init_def ids_distinct_def split: if_splits option.splits)
  show "ensureInitialized s = Inr s' \<Longrightarrow> ids_distinct s'" by (rule e)
  show "createUser newId now u s = Inr (i, s') \<Longrightarrow> ids_distinct s'"
    using assms by (auto simp add: createUser_def ids_distinct_def split: if_splits)
  show "createProject newId now p s = Inr (i, s') \<Longrightarrow> ids_distinct s'"
    using assms by (auto simp add: createProject_def ids_distinct_def split: if_splits)
  show "createReport newId now r s = Inr (i, s') \<Longrightarrow> ids_distinct s'"
    using assms by (auto simp add: createReport_def ids_distinct_def split: if_splits)
  show "updateReport now j rpatch s = Inr s' \<Longrightarrow> ids_distinct s'"
    using e by (auto simp add: updateReport_def ids_distinct_def split: sum.splits if_splits)
  show "deleteReport j s = Inr s' \<Longrightarrow> ids_distinct s'"
    using e
    by (auto simp add: deleteReport_def ids_distinct_def distinct_map_filter
        split: sum.splits if_splits)
  show "createSubmission newId now x s = Inr (i, s') \<Longrightarrow> ids_distinct s'"
    using assms by (auto simp add: createSubmission_def ids_distinct_def split: if_splits)
  show "updateSubmission now j spatch s = Inr s' \<Longrightarrow> ids_distinct s'"
    using assms
    by (auto simp add: updateSubmission_def ids_distinct_def submission_ids_after_update
        simp del: map_map split: if_splits)
  show "addToSyncQueue newId now item s = Inr (i, s') \<Longrightarrow> ids_distinct s'"
    using assms by (auto simp add: addToSyncQueue_def ids_distinct_def split: if_splits)
  show "updateSyncQueueItem now j n err s = Inr s' \<Longrightarrow> ids_distinct s'"
    using assms
    by (auto simp add: updateSyncQueueItem_def ids_distinct_def queue_ids_after_update
        simp del: map_map split: if_splits)
  show "removeSyncQueueItem j s = Inr s' \<Longrightarrow> ids_distinct s'"
    using assms
    by (auto simp add: removeSyncQueueItem_def ids_distinct_def distinct_map_filter
        split: if_splits)
  show "clearAllData s = Inr s' \<Longrightarrow> ids_distinct s'"
    using assms by (auto simp add: clearAllData_def ids_distinct_def split: if_splits)
qed

lemma processItems_ids_distinct:
  "ids_distinct s \<Longrightarrow> ids_distinct (snd (processItems ev n items s))"
proof (induction items arbitrary: n s)
  case Nil
  then show ?case by simp
next
  case (Cons item items)
  note p = ids_distinct_primitives [OF Cons.prems]
  show ?case
    using Cons.prems
    by (auto split: option.splits sum.splits intro!: Cons.IH dest: p(11) p(12))
qed

lemma syncSubmissions_ids_distinct:
  "ids_distinct s \<Longrightarrow> ids_distinct (snd (syncSubmissions ev n xs s))"
proof (induction xs arbitrary: n s)
  case Nil
  then show ?case by simp
next
  case (Cons x xs)
  note p = ids_distinct_primitives [OF Cons.prems]
  show ?case
    using Cons.prems
    by (auto split: option.splits sum.splits intro!: Cons.IH dest: p(9))
qed

lemma removeItems_ids_distinct:
  "ids_distinct s \<Longrightarrow> ids_distinct (snd (removeItems items s))"
proof (induction items arbitrary: s)
  case Nil
  then show ?case by simp
next
  case (Cons item items)
  note p = ids_distinct_primitives [OF Cons.prems]
  show ?case
    using Cons.prems
    by (auto split: sum.splits intro!: Cons.IH dest: p(12))
qed

lemma processSyncQueue_ids_distinct:
  "ids_distinct s \<Longrightarrow> ids_distinct (snd (processSyncQueue ev s))"
  by (simp add: processSyncQueue_def processItems_ids_distinct split: sum.splits)

lemma syncPendingSubmissions_ids_distinct:
  assumes "ids_distinct s"
  shows "ids_distinct (snd (syncPendingSubmissions ev s))"
proof (cases "getSubmissionsByUserId ''current_user_id'' s")
  case (Inl e)
  with assms show ?thesis by (simp add: syncPendingSubmissions_def)
next
  case (Inr r)
  obtain xs s' where r: "r = (xs, s')" by force
  have "ids_distinct s'"
    using Inr [unfolded r] ids_distinct_primitives(2) [OF assms]
    by (auto simp add: getSubmissionsByUserId_def split: sum.splits if_splits)
  then show ?thesis
    using Inr [unfolded r] by (simp add: syncPendingSubmissions_def syncSubmissions_ids_distinct)
qed

lemma startSync_pass_ids_distinct:
  assumes "ids_distinct (databaseService a)"
  shows "ids_distinct (databaseService (snd (startSync_pass ev a)))"
proof -
  obtain r1 b where p: "processSyncQueue ev (databaseService a) = (r1, b)"
    by force
  obtain r2 c where s: "syncPendingSubmissions ev b = (r2, c)"
    by force
  have b: "ids_distinct b"
    using processSyncQueue_ids_distinct [OF assms, of ev] p by simp
  then have c: "ids_distinct c"
    using syncPendingSubmissions_ids_distinct [of b ev] s by simp
  show ?thesis
    by (cases r1; cases r2) (simp_all add: startSync_pass_def p s b c)
qed

lemma startSync_ids_distinct:
  assumes "ids_distinct (databaseService a)"
  shows "ids_distinct (databaseService (snd (startSync ev a)))"
proof (cases "startSync_begin a")
  case (Pair go a')
  then have "databaseService a' = databaseService a"
    using startSync_begin_database [of a] by simp
  with assms Pair show ?thesis
    by (cases go) (simp_all add: startSync_def startSync_pass_ids_distinct)
qed

lemma addToSyncQueue_sync_ids_distinct:
  assumes "ids_distinct (databaseService a)"
  shows "ids_distinct (databaseService
           (snd (addToSyncQueue_sync newId createdAt now ty act entityId body a)))"
  using assms ids_distinct_primitives(10) [OF assms]
  by (auto simp add: addToSyncQueue_sync_def startSync_unawaited_database Let_def
      split: sum.splits)

lemma saveSubmissionOffline_ids_distinct:
  assumes "ids_distinct (databaseService a)"
  shows "ids_distinct (databaseService (snd (saveSubmissionOffline ev reportId userId body st a)))"
proof (cases "createSubmission (generateId ev 0) (date ev 2)
             \<lparr>s_reportId = reportId, s_userId = userId, s_data = body, s_status = fill st,
              s_submittedAt = (if st = FillSubmitted then Some (date ev 0) else None),
              s_lastModified = date ev 1, s_version = 1, s_isOffline = True,
              s_syncStatus = Pending\<rparr>
             (databaseService a)")
  case (Inl e)
  with assms show ?thesis by (simp add: saveSubmissionOffline_def)
next
  case (Inr r)
  obtain i s' where r: "r = (i, s')" by force
  have "ids_distinct s'"
    using ids_distinct_primitives(8) [OF assms] Inr [unfolded r] by blast
  then have "ids_distinct (databaseService (a\<lparr>databaseService := s'\<rparr>))"
    by simp
  from addToSyncQueue_sync_ids_distinct [OF this]
  show ?thesis
    using Inr [unfolded r] by (simp add: saveSubmissionOffline_def snd_save_result)
qed

lemma updateSubmissionOffline_ids_distinct:
  assumes "ids_distinct (databaseService a)"
  shows "ids_distinct (databaseService (snd (updateSubmissionOffline ev i body st a)))"
proof (cases "updateSubmission (date ev 1) i
             \<lparr>ps_id = None, ps_reportId = None, ps_userId = None, ps_data = Some body,
              ps_status = map_option fill st,
              ps_submittedAt = (if st = Some FillSubmitted then Some (date ev 0) else None),
              ps_lastModified = None, ps_version = None, ps_isOffline = None,
              ps_syncStatus = Some Pending\<rparr>
             (databaseService a)")
  case (Inl e)
  with assms show ?thesis by (simp add: updateSubmissionOffline_def)
next
  case (Inr s')
  have "ids_distinct s'"
    using ids_distinct_primitives(9) [OF assms] Inr by blast
  then have "ids_distinct (databaseService (a\<lparr>databaseService := s'\<rparr>))"
    by simp
  from addToSyncQueue_sync_ids_distinct [OF this]
  show ?thesis
    using Inr by (simp add: updateSubmissionOffline_def)
qed

lemma clearFailedSyncItems_ids_distinct:
  assumes "ids_distinct (databaseService a)"
  shows "ids_distinct (databaseService (snd (clearFailedSyncItems a)))"
proof (cases "db_handle (databaseService a)")
  case True
  with assms show ?thesis by (simp add: clearFailedSyncItems_removes_nothing)
next
  case False
  with assms show ?thesis by (simp add: clearFailedSyncItems_def getPendingSyncItems_def)
qed

lemma login_ids_distinct:
  assumes "ids_distinct s"
  shows "ids_distinct (snd (snd (login ev cr (c, s))))"
    and "ids_distinct (snd (snd (register ev d (c, s))))"
  using assms ids_distinct_primitives(3) [OF assms]
  by (auto simp add: login_def register_def getUserByEmail_def getUserById_def Let_def
      split: sum.splits option.splits if_splits)

lemma after_ids_distinct:
  assumes "ids_distinct s"
  shows "ids_distinct (after s (init s))"
    and "ids_distinct (after s (updateReport now i rpatch s))"
    and "ids_distinct (after s (deleteReport i s))"
    and "ids_distinct (after s (clearAllData s))"
    and "ids_distinct (after_result s (createProject newId now p s))"
    and "ids_distinct (after_result s (createReport newId now r s))"
  using assms ids_distinct_primitives [OF assms]
  by (auto simp add: after_def after_result_def split: sum.splits)

lemma query_ids_distinct:
  assumes "ids_distinct s"
  shows "ids_distinct (after_result s (getProjectsByUserId i s))"
    and "ids_distinct (after_result s (getProjectById i s))"
    and "ids_distinct (after_result s (getAllReports s))"
    and "ids_distinct (after_result s (getReportById i s))"
    and "ids_distinct (after_result s (getSubmissionsByUserId i s))"
  using assms ids_distinct_primitives(2) [OF assms]
  by (auto simp add: after_result_def getProjectsByUserId_def getProjectById_def
      getAllReports_def getReportById_def getSubmissionsByUserId_def
      split: sum.splits if_splits)


lemma saveSubmissionOffline_begin_ids_distinct:
  assumes "ids_distinct (databaseService a)"
  shows "ids_distinct (databaseService
           (snd (saveSubmissionOffline_begin ev reportId userId body st a)))"
  using assms ids_distinct_primitives(8) [OF assms]
  by (auto simp add: saveSubmissionOffline_begin_def split: sum.splits)

lemma updateSubmissionOffline_begin_ids_distinct:
  assumes "ids_distinct (databaseService a)"
  shows "ids_distinct (databaseService (snd (updateSubmissionOffline_begin ev i body st a)))"
  using assms ids_distinct_primitives(9) [OF assms]
  by (auto simp add: updateSubmissionOffline_begin_def split: sum.splits)

lemma addToSyncQueue_ids_distinct:
  assumes "ids_distinct s"
  shows "ids_distinct (after_result s (addToSyncQueue newId now item s))"
  using assms ids_distinct_primitives(10) [OF assms]
  by (auto simp add: after_result_def split: sum.splits)

lemma perform_keeps_ids_distinct:
  assumes "ids_distinct (databaseService (fst ac))"
  shows "ids_distinct (databaseService (fst (perform ev op ac)))"
proof (cases op)
  case (Login cr)
  show ?thesis
    unfolding Login perform_Login_database using assms by (rule login_ids_distinct)
next
  case (Register d)
  show ?thesis
    unfolding Register perform_Login_database using assms by (rule login_ids_distinct)
qed (use assms in \<open>simp_all add: on_database_def after_ids_distinct query_ids_distinct
    saveSubmissionOffline_ids_distinct updateSubmissionOffline_ids_distinct
    saveSubmissionOffline_begin_ids_distinct updateSubmissionOffline_begin_ids_distinct
    addToSyncQueue_ids_distinct startSync_unawaited_database
    clearFailedSyncItems_ids_distinct listener_submissions\<close>)

lemma pass_step_keeps_ids_distinct:
  assumes "ids_distinct (databaseService a)"
  shows "ids_distinct (databaseService (snd (pass_step ev p a)))"
proof (cases p)
  case Idle
  with assms show ?thesis by simp
next
  case (InQueue items n)
  show ?thesis
  proof (cases items)
    case Nil
    show ?thesis
      unfolding InQueue Nil
      using assms ids_distinct_same_database [OF pass_step_fetch_database] by simp
  next
    case (Cons item rest)
    show ?thesis
      unfolding InQueue Cons pass_step_queue_database
      using assms by (rule processItems_ids_distinct)
  qed
next
  case (InSubmissions xs n)
  show ?thesis
  proof (cases xs)
    case Nil
    with assms show ?thesis by (simp add: InSubmissions)
  next
    case (Cons x rest)
    show ?thesis
      unfolding InSubmissions Cons pass_step_submission_database
      using assms by (rule syncSubmissions_ids_distinct)
  qed
qed

lemma run_keeps_ids_distinct:
  assumes "ids_distinct (databaseService (fst (fst st)))"
  shows "ids_distinct (databaseService (fst (fst (run ev op st))))"
proof (cases "op = PassStep")
  case True
  show ?thesis
    unfolding True run_step using assms by (simp add: pass_step_keeps_ids_distinct)
next
  case False
  show ?thesis
    unfolding run_call_database [OF False] using assms by (rule perform_keeps_ids_distinct)
qed

lemma empty_database_ids_distinct: "ids_distinct (open_service empty_database)"
  by (simp add: ids_distinct_def open_service_def empty_database_def)

section \<open>The pass in flight\<close>

text \<open>Whatever the operations that run between the steps of a pass: the submissions that
  the pass has fetched and not sent yet are pending in the table, if they are there.\<close>

lemma in_updated_rows:
  assumes "r \<in> set (map (\<lambda>y. if s_id y = i then g y else y) rows)"
  shows "\<exists>r0\<in>set rows. r = r0 \<or> (s_id r0 = i \<and> r = g r0)"
  using assms by (induction rows) (auto split: if_splits)

lemma pass_step_row:
  assumes "r \<in> set (report_submissions (reports_db (databaseService (snd (pass_step ev p a)))))"
  shows "\<exists>r0\<in>set (report_submissions (reports_db (databaseService a))).
     r = r0
     \<or> (\<exists>x xs n. p = InSubmissions (x # xs) n \<and> s_id r0 = s_id x
           \<and> r = r0\<lparr>s_syncStatus := (if submission_random ev n then Synced else SyncError),
                     s_lastModified := submission_date ev n\<rparr>)"
proof -
  have kept: ?thesis
    if "report_submissions (reports_db (databaseService (snd (pass_step ev p a))))
        = report_submissions (reports_db (databaseService a))"
    using assms unfolding that by blast
  show ?thesis
  proof (cases p)
    case Idle
    show ?thesis by (rule kept) (simp add: Idle)
  next
    case (InQueue items n)
    show ?thesis by (rule kept) (simp add: pass_step_submissions InQueue del: pass_step.simps)
  next
    case (InSubmissions xs n)
    show ?thesis
    proof (cases xs)
      case Nil
      show ?thesis by (rule kept) (simp add: InSubmissions Nil)
    next
      case (Cons x rest)
      show ?thesis
      proof (cases "db_handle (databaseService a)")
        case False
        show ?thesis
          by (rule kept) (simp add: pass_step_submissions InSubmissions Cons False del: pass_step.simps)
      next
        case True
        have "r \<in> set (map (\<lambda>y. if s_id y = s_id x
                 then y\<lparr>s_syncStatus := (if submission_random ev n then Synced else SyncError),
                        s_lastModified := submission_date ev n\<rparr>
                 else y) (report_submissions (reports_db (databaseService a))))"
          using assms unfolding pass_step_submissions InSubmissions Cons
          by (simp add: True)
        from in_updated_rows [OF this] show ?thesis
          unfolding InSubmissions Cons by blast
      qed
    qed
  qed
qed


lemma pass_invariant_initial:
  "ids_distinct (databaseService a) \<Longrightarrow> pass_invariant ((a, c), Idle)"
  by (simp add: pass_invariant_def)

lemma pass_invariant_step:
  assumes "pass_invariant st"
  shows "pass_invariant (run ev PassStep st)"
proof -
  define a where "a = fst (fst st)"
  define p where "p = snd st"
  define p' where "p' = fst (pass_step ev p a)"
  define a' where "a' = snd (pass_step ev p a)"
  define rows where "rows = report_submissions (reports_db (databaseService a))"
  define rows' where "rows' = report_submissions (reports_db (databaseService a'))"
  have r: "run ev PassStep st = ((a', snd (fst st)), p')"
    by (simp add: run_step a_def p_def p'_def a'_def)
  have ids0: "ids_distinct (databaseService a)"
    using assms by (simp add: pass_invariant_def a_def)
  have ids: "ids_distinct (databaseService a')"
    unfolding a'_def using ids0 by (rule pass_step_keeps_ids_distinct)
  have d0: "distinct (map s_id rows)"
    using ids0 by (simp add: ids_distinct_def rows_def)
  have inflight: "distinct (map s_id ys)
      \<and> (\<forall>x\<in>set ys. \<forall>r\<in>set rows'. s_id r = s_id x \<longrightarrow> s_syncStatus r = Pending)"
    if p': "p' = InSubmissions ys m" for ys m
  proof (cases p)
    case Idle
    with p' show ?thesis by (simp add: p'_def)
  next
    case (InQueue items n)
    show ?thesis
    proof (cases items)
      case (Cons item rest)
      from pass_step_queue_pass [of ev item rest n a] p' show ?thesis
        unfolding p'_def InQueue Cons by auto
    next
      case Nil
      let ?fetched = "filter (\<lambda>x. s_syncStatus x = Pending) (order_desc s_lastModified
           (filter (\<lambda>x. s_userId x = ''current_user_id'') rows))"
      have same: "rows' = rows"
        unfolding rows'_def rows_def a'_def InQueue Nil pass_step_fetch_database ..
      from pass_step_fetch_pass [of ev n a] p'
      have "ys = [] \<or> ys = ?fetched"
        unfolding p'_def InQueue Nil rows_def by auto
      then show ?thesis
      proof
        assume "ys = []"
        then show ?thesis by simp
      next
        assume ys: "ys = ?fetched"
        have d: "distinct (map s_id ?fetched)"
          using d0 by (rule distinct_ids_query(1))
        have sub: "set ?fetched \<subseteq> set rows"
          by (auto simp add: order_desc_def)
        have "s_syncStatus r = Pending"
          if x: "x \<in> set ?fetched" and r: "r \<in> set rows" and i: "s_id r = s_id x" for x r
        proof -
          from x sub have "x \<in> set rows" by blast
          with d0 r have "r = x" by (rule distinct_ids_same) (rule i)
          with x show ?thesis by simp
        qed
        with d show ?thesis unfolding ys same by blast
      qed
    qed
  next
    case (InSubmissions xs n)
    show ?thesis
    proof (cases xs)
      case Nil
      with p' show ?thesis by (simp add: p'_def InSubmissions)
    next
      case (Cons x rest)
      from pass_step_submission_pass [of ev x rest n a] p'
      have ys: "ys = rest"
        unfolding p'_def InSubmissions Cons by auto
      from assms have d: "distinct (map s_id (x # rest))"
        and all: "\<forall>z\<in>set (x # rest). \<forall>r\<in>set rows.
            s_id r = s_id z \<longrightarrow> s_syncStatus r = Pending"
        using InSubmissions Cons
        by (simp_all add: pass_invariant_def p_def rows_def a_def submissions_of_def)
      from all have pending: "s_syncStatus r = Pending"
        if "z \<in> set (x # rest)" and "r \<in> set rows" and "s_id r = s_id z" for z r
        using that by blast
      have "s_syncStatus r = Pending"
        if z: "z \<in> set rest" and r: "r \<in> set rows'" and i: "s_id r = s_id z" for z r
      proof -
        from d z have ne: "s_id z \<noteq> s_id x" by (metis distinct.simps(2) in_map_ids list.simps(9))
        from pass_step_row [OF r [unfolded rows'_def a'_def]]
        obtain r0 where r0: "r0 \<in> set rows"
          and r': "r = r0 \<or> (\<exists>x' xs' n'. p = InSubmissions (x' # xs') n' \<and> s_id r0 = s_id x'
             \<and> r = r0\<lparr>s_syncStatus := (if submission_random ev n' then Synced else SyncError),
                       s_lastModified := submission_date ev n'\<rparr>)"
          unfolding rows_def by blast
        from r' have "r = r0"
        proof
          assume "\<exists>x' xs' n'. p = InSubmissions (x' # xs') n' \<and> s_id r0 = s_id x'
             \<and> r = r0\<lparr>s_syncStatus := (if submission_random ev n' then Synced else SyncError),
                       s_lastModified := submission_date ev n'\<rparr>"
          then have "s_id r0 = s_id x" "s_id r = s_id r0"
            unfolding InSubmissions Cons by auto
          with i ne show ?thesis by simp
        qed
        with pending [of z r0] z r0 i show ?thesis by simp
      qed
      with d show ?thesis unfolding ys by auto
    qed
  qed
  show ?thesis
  proof (cases p')
    case Idle
    with ids show ?thesis unfolding r pass_invariant_def by simp
  next
    case (InQueue items n)
    with ids show ?thesis unfolding r pass_invariant_def by simp
  next
    case (InSubmissions ys m)
    from inflight [OF this] ids show ?thesis
      unfolding r pass_invariant_def InSubmissions
      by (simp add: submissions_of_def rows'_def)
  qed
qed

lemma pass_invariant_call:
  assumes "pass_invariant st" and "op \<noteq> PassStep"
  shows "pass_invariant (run ev op st)"
proof -
  have ids: "ids_distinct (databaseService (fst (fst (run ev op st))))"
    using assms(1) by (intro run_keeps_ids_distinct) (simp add: pass_invariant_def)
  have rows: "submissions_of (fst (run ev op st)) = submissions_of (perform ev op (fst st))"
    by (simp add: submissions_of_def run_call_database [OF assms(2)])
  from run_call_pass [OF assms(2), of ev st]
  consider "snd (run ev op st) = snd st"
    | "snd (run ev op st) = Idle" | items where "snd (run ev op st) = InQueue items 0"
    by blast
  then show ?thesis
  proof cases
    case 1
    show ?thesis
    proof (cases "snd st")
      case (InSubmissions xs n)
      from assms(1) have d: "distinct (map s_id xs)"
        and pending: "\<And>x r. x \<in> set xs \<Longrightarrow> r \<in> set (submissions_of (fst st)) \<Longrightarrow>
            s_id r = s_id x \<Longrightarrow> s_syncStatus r = Pending"
        by (simp_all add: pass_invariant_def InSubmissions)
      have "s_syncStatus r = Pending"
        if x: "x \<in> set xs" and r: "r \<in> set (submissions_of (perform ev op (fst st)))"
          and i: "s_id r = s_id x" for x r
        using perform_rows [OF r] pending [OF x] i by auto
      then have "\<forall>x\<in>set xs. \<forall>r\<in>set (submissions_of (perform ev op (fst st))).
          s_id r = s_id x \<longrightarrow> s_syncStatus r = Pending"
        by blast
      with ids d show ?thesis
        unfolding pass_invariant_def 1 InSubmissions rows by simp
    qed (use ids in \<open>simp_all add: pass_invariant_def 1\<close>)
  qed (use ids in \<open>simp_all add: pass_invariant_def\<close>)
qed

lemma run_keeps_pass_invariant: "pass_invariant st \<Longrightarrow> pass_invariant (run ev op st)"
  by (cases "op = PassStep") (simp_all add: pass_invariant_step pass_invariant_call)

lemma runs_keep_pass_invariant: "pass_invariant st \<Longrightarrow> pass_invariant (runs history st)"
proof (induction history arbitrary: st)
  case Nil
  then show ?case by simp
next
  case (Cons eo history)
  from Cons.prems have "pass_invariant (run (fst eo) (snd eo) st)"
    by (rule run_keeps_pass_invariant)
  then have "pass_invariant (runs history (run (fst eo) (snd eo) st))"
    by (rule Cons.IH)
  then show ?case by simp
qed

text \<open>A row after an operation, and the row with its id before.\<close>

lemma run_rows:
  assumes "pass_invariant st"
    and "x \<in> set (submissions_of (fst st))" and "y \<in> set (submissions_of (fst (run ev op st)))"
    and "s_id y = s_id x"
  shows "transition_of ev op (snd st) x y"
proof (cases "op = PassStep")
  case False
  have d0: "distinct (map s_id (submissions_of (fst st)))"
    using assms(1) by (simp add: pass_invariant_def ids_distinct_def submissions_of_def)
  have "y \<in> set (submissions_of (perform ev op (fst st)))"
    using assms(3) by (simp add: submissions_of_def run_call_database [OF False])
  from perform_rows [OF this] assms(2,4) obtain x'
    where x': "x' \<in> set (submissions_of (fst st))" "s_id x' = s_id y"
      "s_syncStatus y = s_syncStatus x' \<or> s_syncStatus y = Pending \<and> edits op (s_id x')"
    by (metis in_map_ids)
  from d0 x'(1) assms(2) have "x' = x"
    by (rule distinct_ids_same) (simp add: x'(2) assms(4))
  with x'(3) show ?thesis
    by (auto simp add: transition_of_def)
next
  case True
  define p where "p = snd st"
  have d0: "distinct (map s_id (submissions_of (fst st)))"
    using assms(1) by (simp add: pass_invariant_def ids_distinct_def submissions_of_def)
  have "y \<in> set (report_submissions (reports_db (databaseService
          (snd (pass_step ev p (fst (fst st)))))))"
    using assms(3) unfolding True run_step p_def by (simp add: submissions_of_def)
  from pass_step_row [OF this]
  obtain r0 where r0: "r0 \<in> set (submissions_of (fst st))"
    and y: "y = r0 \<or> (\<exists>z zs n. p = InSubmissions (z # zs) n \<and> s_id r0 = s_id z
       \<and> y = r0\<lparr>s_syncStatus := (if submission_random ev n then Synced else SyncError),
                 s_lastModified := submission_date ev n\<rparr>)"
    unfolding submissions_of_def by blast
  from y have "s_id r0 = s_id y" by auto
  with assms(4) have "s_id r0 = s_id x" by simp
  with d0 r0 assms(2) have same: "r0 = x" by (rule distinct_ids_same)
  from y show ?thesis
  proof
    assume "y = r0"
    with same show ?thesis by (simp add: transition_of_def)
  next
    assume "\<exists>z zs n. p = InSubmissions (z # zs) n \<and> s_id r0 = s_id z
       \<and> y = r0\<lparr>s_syncStatus := (if submission_random ev n then Synced else SyncError),
                 s_lastModified := submission_date ev n\<rparr>"
    then obtain z zs n where p: "p = InSubmissions (z # zs) n" and z: "s_id x = s_id z"
      and status: "s_syncStatus y = (if submission_random ev n then Synced else SyncError)"
      unfolding same by auto
    from assms(1) have "\<forall>u\<in>set (z # zs). \<forall>r\<in>set (submissions_of (fst st)).
        s_id r = s_id u \<longrightarrow> s_syncStatus r = Pending"
      using p unfolding p_def by (simp add: pass_invariant_def)
    with assms(2) z have pending: "s_syncStatus x = Pending"
      by (metis list.set_intros(1))
    have request: "request_for ev (snd st) (s_id x)
        = Some (syncSubmission (submission_random ev n) z)"
      using p z unfolding p_def by (simp add: request_for_def)
    show ?thesis
    proof (cases "submission_random ev n")
      case True
      then have "syncSubmission (submission_random ev n) z = None"
        by (simp add: request_outcome)
      with status pending request True \<open>op = PassStep\<close> show ?thesis
        by (simp add: transition_of_def)
    next
      case False
      then have "syncSubmission (submission_random ev n) z \<noteq> None"
        by (simp add: request_outcome)
      then obtain e where "syncSubmission (submission_random ev n) z = Some e"
        by blast
      with status pending request False \<open>op = PassStep\<close> show ?thesis
        by (simp add: transition_of_def)
    qed
  qed
qed

text \<open>
  C9. Let the application start with no two submissions and no two queue entries of the
  same id (the ids are the primary keys of the two tables) and with no pass in flight, and
  let any history of operations follow: calls of the screens, events of the network and of
  the timer, steps of the pass in flight, in any order. Take the operation that comes next,
  a submission \<open>x\<close> stored before it and a submission \<open>y\<close> with the id of \<open>x\<close> stored after
  it. Then \<open>y\<close> has the sync status of \<open>x\<close>; or \<open>x\<close> was pending and \<open>y\<close> is synced, the
  operation is the step of the pass that sends this submission, and its request resolved;
  or \<open>x\<close> was pending and \<open>y\<close> is error, the operation is that step, and its request was
  rejected; or \<open>y\<close> is pending and the operation is the local edit of this submission,
  \<^verbatim>\<open>updateSubmissionOffline\<close> or its write. So a synced submission becomes pending by a
  local edit only.
\<close>

theorem syncStatus_transitions:
  assumes "ids_distinct (databaseService a)"
    and "st = runs history ((a, c), Idle)"
    and "x \<in> set (submissions_of (fst st))" and "y \<in> set (submissions_of (fst (run ev op st)))"
    and "s_id y = s_id x"
  shows "s_syncStatus y = s_syncStatus x
     \<or> (s_syncStatus x = Pending \<and> s_syncStatus y = Synced \<and> op = PassStep
          \<and> request_for ev (snd st) (s_id x) = Some None)
     \<or> (s_syncStatus x = Pending \<and> s_syncStatus y = SyncError \<and> op = PassStep
          \<and> (\<exists>e. request_for ev (snd st) (s_id x) = Some (Some e)))
     \<or> (s_syncStatus y = Pending \<and> edits op (s_id x))"
proof -
  have "pass_invariant st"
    unfolding assms(2) using assms(1)
    by (intro runs_keep_pass_invariant pass_invariant_initial)
  from run_rows [OF this assms(3,4,5)] show ?thesis
    by (simp add: transition_of_def)
qed

theorem syncStatus_transitions_witness:
  "ids_distinct (databaseService
      (sample_app True (empty_database\<lparr>report_submissions := [current_user_submission]\<rparr>)))
   \<and> current_user_submission \<in> set (submissions_of (fst
        (runs [(sample_env [] True, ForcSync), (sample_env [] True, PassStep)]
          ((sample_app True (empty_database\<lparr>report_submissions := [current_user_submission]\<rparr>),
            sample_session), Idle))))
   \<and> current_user_submission\<lparr>s_syncStatus := Synced,
          s_lastModified := ''2024-05-04T12:00:02.000Z''\<rparr>
        \<in> set (submissions_of (fst (run (sample_env [] True) PassStep
        (runs [(sample_env [] True, ForcSync), (sample_env [] True, PassStep)]
          ((sample_app True (empty_database\<lparr>report_submissions := [current_user_submission]\<rparr>),
            sample_session), Idle)))))
   \<and> s_syncStatus current_user_submission = Pending
   \<and> s_syncStatus (current_user_submission\<lparr>s_syncStatus := Synced,
          s_lastModified := ''2024-05-04T12:00:02.000Z''\<rparr>) = Synced
   \<and> request_for (sample_env [] True)
        (snd (runs [(sample_env [] True, ForcSync), (sample_env [] True, PassStep)]
          ((sample_app True (empty_database\<lparr>report_submissions := [current_user_submission]\<rparr>),
            sample_session), Idle)))
        (s_id current_user_submission) = Some None"
proof -
  let ?a = "sample_app True (empty_database\<lparr>report_submissions := [current_user_submission]\<rparr>)"
  let ?ev = "sample_env [] True"
  have launch: "run ?ev ForcSync ((?a, sample_session), Idle)
      = ((?a\<lparr>syncService := (syncService ?a)\<lparr>syncInProgress := True\<rparr>\<rparr>, sample_session),
         InQueue [] 0)"
    by (simp add: run_def launched_def startSync_unawaited_def startSync_begin_def
        isInitialized_def getPendingSyncItems_def order_asc_def sample_app_def open_service_def
        empty_database_def)
  have fetch: "run ?ev PassStep
        ((?a\<lparr>syncService := (syncService ?a)\<lparr>syncInProgress := True\<rparr>\<rparr>, sample_session),
         InQueue [] 0)
      = ((?a\<lparr>syncService := (syncService ?a)\<lparr>syncInProgress := True\<rparr>\<rparr>, sample_session),
         InSubmissions [current_user_submission] 0)"
    by (simp add: run_def getSubmissionsByUserId_def ensureInitialized_def isInitialized_def
        order_desc_def sample_app_def open_service_def empty_database_def
        current_user_submission_def sample_submission_def)
  have st: "runs [(?ev, ForcSync), (?ev, PassStep)] ((?a, sample_session), Idle)
      = ((?a\<lparr>syncService := (syncService ?a)\<lparr>syncInProgress := True\<rparr>\<rparr>, sample_session),
         InSubmissions [current_user_submission] 0)"
    by (simp add: launch fetch)
  have sent: "submissions_of (fst (run ?ev PassStep
        ((?a\<lparr>syncService := (syncService ?a)\<lparr>syncInProgress := True\<rparr>\<rparr>, sample_session),
         InSubmissions [current_user_submission] 0)))
      = [current_user_submission\<lparr>s_syncStatus := Synced,
          s_lastModified := ''2024-05-04T12:00:02.000Z''\<rparr>]"
    by (simp add: run_def submissions_of_def syncSubmission_def makeHttpRequest_def
        updateSubmission_def submission_set_def only_syncStatus_def supplied_def
        sample_app_def open_service_def empty_database_def sample_env_def
        current_user_submission_def sample_submission_def)
  show ?thesis
    using syncStatus_transitions [of ?a _
        "[(?ev, ForcSync), (?ev, PassStep)]" sample_session current_user_submission
        "current_user_submission\<lparr>s_syncStatus := Synced,
          s_lastModified := ''2024-05-04T12:00:02.000Z''\<rparr>" ?ev PassStep, OF _ refl]
    unfolding st sent
    by (simp add: ids_distinct_def submissions_of_def request_for_def syncSubmission_def
        makeHttpRequest_def sample_app_def open_service_def empty_database_def sample_env_def
        current_user_submission_def sample_submission_def)
qed

section \<open>A pass that nothing interrupts\<close>

text \<open>The steps of a pass, taken one after the other with no other operation in between,
  are the pass as \<^verbatim>\<open>startSync\<close> runs it.\<close>

lemma pass_steps_Idle: "pass_steps k ev (Idle, a) = (Idle, a)"
  by (induction k) simp_all

lemma pass_steps_add: "pass_steps (j + k) ev pa = pass_steps k ev (pass_steps j ev pa)"
  by (induction j arbitrary: pa) simp_all

lemma processItems_by_one:
  "processItems ev n (item # items) s =
     (case processItems ev n [item] s of
        (Some e, s') \<Rightarrow> (Some e, s')
      | (None, s') \<Rightarrow> processItems ev (Suc n) items s')"
  by (simp split: sum.splits option.splits)

lemma syncSubmissions_by_one:
  "syncSubmissions ev n (x # xs) s =
     (case syncSubmissions ev n [x] s of
        (Some e, s') \<Rightarrow> (Some e, s')
      | (None, s') \<Rightarrow> syncSubmissions ev (Suc n) xs s')"
  by (simp split: sum.splits option.splits)

lemma pass_failed_database [simp]: "pass_failed (a\<lparr>databaseService := s\<rparr>) s' = pass_failed a s'"
  by (simp add: pass_failed_def)

lemma pass_steps_queue:
  "pass_steps (length items) ev (InQueue items n, a) =
     (case processItems ev n items (databaseService a) of
        (Some e, s') \<Rightarrow> (Idle, pass_failed a s')
      | (None, s') \<Rightarrow> (InQueue [] (n + length items), a\<lparr>databaseService := s'\<rparr>))"
proof (induction items arbitrary: n a)
  case Nil
  show ?case by simp
next
  case (Cons item items)
  obtain r s' where one: "processItems ev n [item] (databaseService a) = (r, s')"
    by force
  show ?case
  proof (cases r)
    case (Some e)
    with one show ?thesis
      unfolding processItems_by_one [of ev n item items]
      by (simp add: pass_steps_Idle del: processItems.simps)
  next
    case None
    with one Cons.IH [of "Suc n" "a\<lparr>databaseService := s'\<rparr>"] show ?thesis
      unfolding processItems_by_one [of ev n item items]
      by (simp del: processItems.simps split: prod.splits option.splits)
  qed
qed

lemma pass_steps_submissions:
  "pass_steps (length xs) ev (InSubmissions xs n, a) =
     (case syncSubmissions ev n xs (databaseService a) of
        (Some e, s') \<Rightarrow> (Idle, pass_failed a s')
      | (None, s') \<Rightarrow> (InSubmissions [] (n + length xs), a\<lparr>databaseService := s'\<rparr>))"
proof (induction xs arbitrary: n a)
  case Nil
  show ?case by simp
next
  case (Cons x xs)
  obtain r s' where one: "syncSubmissions ev n [x] (databaseService a) = (r, s')"
    by force
  show ?case
  proof (cases r)
    case (Some e)
    with one show ?thesis
      unfolding syncSubmissions_by_one [of ev n x xs]
      by (simp add: pass_steps_Idle del: syncSubmissions.simps)
  next
    case None
    with one Cons.IH [of "Suc n" "a\<lparr>databaseService := s'\<rparr>"] show ?thesis
      unfolding syncSubmissions_by_one [of ev n x xs]
      by (simp del: syncSubmissions.simps split: prod.splits option.splits)
  qed
qed

lemma pass_steps_uninterrupted:
  assumes "getPendingSyncItems (databaseService a) = Inr items"
  shows "\<exists>k. pass_steps k ev (InQueue items 0, a) = (Idle, snd (startSync_pass ev a))"
proof -
  obtain r1 s1 where queue: "processItems ev 0 items (databaseService a) = (r1, s1)"
    by force
  show ?thesis
  proof (cases r1)
    case (Some e)
    have "pass_steps (length items) ev (InQueue items 0, a) = (Idle, snd (startSync_pass ev a))"
      unfolding pass_steps_queue
      by (simp add: startSync_pass_def processSyncQueue_def assms queue Some pass_failed_def)
    then show ?thesis ..
  next
    case None
    have first: "pass_steps (length items) ev (InQueue items 0, a)
        = (InQueue [] (length items), a\<lparr>databaseService := s1\<rparr>)"
      unfolding pass_steps_queue by (simp add: queue None)
    show ?thesis
    proof (cases "getSubmissionsByUserId ''current_user_id'' s1")
      case (Inl e)
      have "pass_steps (length items + 1) ev (InQueue items 0, a)
          = (Idle, snd (startSync_pass ev a))"
        unfolding pass_steps_add first
        by (simp add: startSync_pass_def processSyncQueue_def syncPendingSubmissions_def
            assms queue None Inl pass_failed_def)
      then show ?thesis ..
    next
      case (Inr fetched)
      obtain submissions s2 where fetched: "fetched = (submissions, s2)"
        by force
      let ?xs = "filter (\<lambda>x. s_syncStatus x = Pending) submissions"
      obtain r3 s3 where sent: "syncSubmissions ev 0 ?xs s2 = (r3, s3)"
        by force
      have second: "pass_steps (length items + 1) ev (InQueue items 0, a)
          = (InSubmissions ?xs 0, a\<lparr>databaseService := s2\<rparr>)"
        unfolding pass_steps_add first by (simp add: Inr fetched)
      have third: "pass_steps (length items + 1 + length ?xs) ev (InQueue items 0, a)
          = (case r3 of
               Some e \<Rightarrow> (Idle, pass_failed a s3)
             | None \<Rightarrow> (InSubmissions [] (length ?xs), a\<lparr>databaseService := s3\<rparr>))"
        unfolding pass_steps_add [of "length items + 1" "length ?xs"] second
          pass_steps_submissions
        by (simp add: sent split: option.splits)
      have "pass_steps (length items + 1 + length ?xs + 1) ev (InQueue items 0, a)
          = (Idle, snd (startSync_pass ev a))"
        unfolding pass_steps_add [of "length items + 1 + length ?xs" 1] third
        by (cases r3)
          (simp_all add: startSync_pass_def processSyncQueue_def syncPendingSubmissions_def
            assms queue None Inr fetched sent pass_failed_def)
      then show ?thesis ..
    qed
  qed
qed

section \<open>The offline methods in their parts\<close>

text \<open>A call of an offline method that nothing interrupts is the write of the submission
  and then \<^verbatim>\<open>addToSyncQueue\<close>, which is the insertion of the queue entry and then the call
  of \<^verbatim>\<open>startSync\<close>.\<close>

lemma saveSubmissionOffline_then:
  "saveSubmissionOffline ev reportId userId body st a =
     (case saveSubmissionOffline_begin ev reportId userId body st a of
        (Inl e, a') \<Rightarrow> (Inl e, a')
      | (Inr submissionId, a') \<Rightarrow>
          (case addToSyncQueue_sync (generateId ev 1) (date ev 4) (date ev 5) TSubmission Create
                  submissionId
                  (JObject ([(''reportId'', JString reportId), (''userId'', JString userId),
                     (''data'', body), (''status'', JString (status_string (fill st)))]
                     @ (if st = FillSubmitted then [(''submittedAt'', JString (date ev 3))] else [])))
                  a' of
             (Some e, a'') \<Rightarrow> (Inl e, a'')
           | (None, a'') \<Rightarrow> (Inr submissionId, a'')))"
  by (simp add: saveSubmissionOffline_def saveSubmissionOffline_begin_def split: sum.splits)

lemma updateSubmissionOffline_then:
  "updateSubmissionOffline ev submissionId body st a =
     (case updateSubmissionOffline_begin ev submissionId body st a of
        (Some e, a') \<Rightarrow> (Some e, a')
      | (None, a') \<Rightarrow>
          addToSyncQueue_sync (generateId ev 0) (date ev 2) (date ev 3) TSubmission Update
            submissionId
            (JObject ([(''data'', body)]
               @ (case st of None \<Rightarrow> []
                  | Some v \<Rightarrow> [(''status'', JString (status_string (fill v)))])))
            a')"
  by (simp add: updateSubmissionOffline_def updateSubmissionOffline_begin_def split: sum.splits)

lemma addToSyncQueue_sync_parts:
  assumes "addToSyncQueue newId now
             \<lparr>q_type = ty, q_action = action, q_entityId = entityId, q_data = body,
              q_attempts = 0, q_lastAttempt = None, q_error = None, q_createdAt = createdAt\<rparr>
             (databaseService a) = Inr (j, s')"
  shows "addToSyncQueue_sync newId createdAt now ty action entityId body a =
     (None, fst (perform ev ForcSync
        (perform ev (AddToSyncQueue newId now
             \<lparr>q_type = ty, q_action = action, q_entityId = entityId, q_data = body,
              q_attempts = 0, q_lastAttempt = None, q_error = None, q_createdAt = createdAt\<rparr>)
          (a, c))))"
  by (simp add: addToSyncQueue_sync_def assms on_database_def after_result_def
      startSync_unawaited_def startSync_begin_def)

section \<open>Signing in\<close>

text \<open>
  C10. Let the database be open and the generated id new. If no stored user has the email
  of the credentials, \<^verbatim>\<open>login\<close> stores a new user with that email, the part of the email
  before the first \<^verbatim>\<open>@\<close> as name and the role admin, and signs that user in without an
  error; the password is not in the result, whatever it is. \<^verbatim>\<open>register\<close> rejects an email
  that a stored user has, and otherwise stores and signs in a new user with the role user.
\<close>

theorem login_creates_admin_register_creates_user:
  assumes "db_handle s"
    and "generateId ev 0 \<notin> set (map u_id (users (reports_db s)))"
    and "c_email cr \<notin> set (map u_email (users (reports_db s)))"
  shows "login ev cr (c, s) =
      (None,
       c\<lparr>secureStore := \<lparr>auth_token = Some (''token_'' @ date_now ev 0),
                          refresh_token = Some (''refresh_'' @ date_now ev 1),
                          user_data = Some \<lparr>u_email = c_email cr,
                            u_name = takeWhile (\<lambda>ch. ch \<noteq> CHR ''@'') (c_email cr), u_role = Admin,
                            u_createdAt = date ev 2, u_updatedAt = date ev 2, u_id = generateId ev 0\<rparr>\<rparr>,
         state := \<lparr>isAuthenticated = True,
                   auth_user = Some \<lparr>u_email = c_email cr,
                            u_name = takeWhile (\<lambda>ch. ch \<noteq> CHR ''@'') (c_email cr), u_role = Admin,
                            u_createdAt = date ev 2, u_updatedAt = date ev 2, u_id = generateId ev 0\<rparr>,
                   token = Some (''token_'' @ date_now ev 0),
                   refreshToken = Some (''refresh_'' @ date_now ev 1)\<rparr>,
         isLoading := False\<rparr>,
       s\<lparr>reports_db := (reports_db s)\<lparr>users := users (reports_db s) @
           [\<lparr>u_email = c_email cr,
             u_name = takeWhile (\<lambda>ch. ch \<noteq> CHR ''@'') (c_email cr), u_role = Admin,
             u_createdAt = date ev 2, u_updatedAt = date ev 2, u_id = generateId ev 0\<rparr>]\<rparr>\<rparr>)
    \<and> register ev d (c, s) =
      (if d_email d \<in> set (map u_email (users (reports_db s)))
       then (Some (Error (''Usu'' @ [CHR 0xC3, CHR 0xA1] @ ''rio j'' @ [CHR 0xC3, CHR 0xA1]
                     @ '' existe com este email'')), c\<lparr>isLoading := False\<rparr>, s)
       else (None,
         c\<lparr>secureStore := \<lparr>auth_token = Some (''token_'' @ date_now ev 0),
                          refresh_token = Some (''refresh_'' @ date_now ev 1),
                          user_data = Some \<lparr>u_email = d_email d, u_name = d_name d, u_role = User,
                            u_createdAt = date ev 2, u_updatedAt = date ev 2, u_id = generateId ev 0\<rparr>\<rparr>,
           state := \<lparr>isAuthenticated = True,
                   auth_user = Some \<lparr>u_email = d_email d, u_name = d_name d, u_role = User,
                            u_createdAt = date ev 2, u_updatedAt = date ev 2, u_id = generateId ev 0\<rparr>,
                   token = Some (''token_'' @ date_now ev 0),
                   refreshToken = Some (''refresh_'' @ date_now ev 1)\<rparr>,
           isLoading := False\<rparr>,
         s\<lparr>reports_db := (reports_db s)\<lparr>users := users (reports_db s) @
           [\<lparr>u_email = d_email d, u_name = d_name d, u_role = User,
             u_createdAt = date ev 2, u_updatedAt = date ev 2, u_id = generateId ev 0\<rparr>]\<rparr>\<rparr>))"
    (is "?L \<and> ?R")
proof -
  let ?us = "users (reports_db s)"
  have l1: "find (\<lambda>u. u_email u = c_email cr) ?us = None"
    using assms(3) by (rule find_absent)
  have l2: "u_id y = generateId ev 0 \<Longrightarrow> find (\<lambda>u. u_id u = generateId ev 0) (?us @ [y]) = Some y"
    for y
    using assms(2) by (rule find_new_row)
  have l3: "d_email d \<notin> set (map u_email ?us) \<Longrightarrow> find (\<lambda>u. u_email u = d_email d) ?us = None"
    by (rule find_absent)
  have l4: "d_email d \<in> set (map u_email ?us)
      \<Longrightarrow> \<exists>y. find (\<lambda>u. u_email u = d_email d) ?us = Some y"
    by (rule find_present)
  have ?L
    using assms(1,2,3)
    by (simp add: login_def getUserByEmail_def createUser_def getUserById_def l1 l2
          authenticate_def local_part_def Let_def)
  moreover have ?R
  proof (cases "d_email d \<in> set (map u_email ?us)")
    case True
    from l4 [OF True] obtain y where "find (\<lambda>u. u_email u = d_email d) ?us = Some y" ..
    with True assms(1) show ?thesis
      by (simp add: register_def getUserByEmail_def already_exists_def a_acute_def Let_def)
  next
    case False
    with assms(1,2) l3 [OF False] show ?thesis
      by (simp add: register_def getUserByEmail_def createUser_def getUserById_def l2
          authenticate_def Let_def)
  qed
  ultimately show ?thesis by (rule conjI)
qed

theorem login_creates_admin_register_creates_user_witness:
  "db_handle (open_service (empty_database\<lparr>users := [sample_user]\<rparr>))
   \<and> generateId (sample_env [''m1x8k2p0aa''] True) 0
       \<notin> set (map u_id (users (reports_db (open_service (empty_database\<lparr>users := [sample_user]\<rparr>)))))
   \<and> c_email \<lparr>c_email = ''bob@site.org'', c_password = ''not checked''\<rparr>
       \<notin> set (map u_email (users (reports_db
            (open_service (empty_database\<lparr>users := [sample_user]\<rparr>)))))
   \<and> fst (login (sample_env [''m1x8k2p0aa''] True)
         \<lparr>c_email = ''bob@site.org'', c_password = ''not checked''\<rparr>
         (signed_out, open_service (empty_database\<lparr>users := [sample_user]\<rparr>))) = None
   \<and> map (\<lambda>u. (u_id u, u_name u, u_role u))
        (users (reports_db (snd (snd (login (sample_env [''m1x8k2p0aa''] True)
         \<lparr>c_email = ''bob@site.org'', c_password = ''not checked''\<rparr>
         (signed_out, open_service (empty_database\<lparr>users := [sample_user]\<rparr>)))))))
       = [(''lvo2k3f1x9'', ''ana'', Admin), (''m1x8k2p0aa'', ''bob'', Admin)]
   \<and> isAuthenticated (state (fst (snd (login (sample_env [''m1x8k2p0aa''] True)
         \<lparr>c_email = ''bob@site.org'', c_password = ''not checked''\<rparr>
         (signed_out, open_service (empty_database\<lparr>users := [sample_user]\<rparr>))))))
   \<and> register (sample_env [''m1x8k2p0aa''] True)
         \<lparr>d_email = ''ana@example.com'', d_password = ''secret'', d_name = ''Ana''\<rparr>
         (signed_out, open_service (empty_database\<lparr>users := [sample_user]\<rparr>))
       = (Some already_exists, signed_out,
          open_service (empty_database\<lparr>users := [sample_user]\<rparr>))"
  using login_creates_admin_register_creates_user
    [of "open_service (empty_database\<lparr>users := [sample_user]\<rparr>)"
        "sample_env [''m1x8k2p0aa''] True"
        "\<lparr>c_email = ''bob@site.org'', c_password = ''not checked''\<rparr>"
        signed_out
        "\<lparr>d_email = ''ana@example.com'', d_password = ''secret'', d_name = ''Ana''\<rparr>"]
  by (simp add: open_service_def empty_database_def sample_user_def sample_env_def
      signed_out_def already_exists_def a_acute_def)

end
